theory Spec2Isabelle
  imports Main "HOL-Library.Sublist"
begin

section \<open>build\_js.py: the OpenCV.js build script\<close>

text \<open>
  The script validates three directories, assembles one cmake command line, runs cmake
  and up to three make targets as child processes, and reports where the artifacts are.
  Everything it does beyond computing strings is an effect on the file system, on the
  log, or a child process. The model makes these explicit:
  \<^item> the file system is a tree of directories, regular files, special files and
    symbolic links, which path resolution follows as the kernel does (no
    permissions, no hard links);
  \<^item> the interpreter state carries the file system, the working directory, the log
    records and the trace of child processes with their outcomes;
  \<^item> a raised exception is the \<open>Inl\<close> of a sum; \<open>sys.exit\<close> raises
    \<open>SystemExit\<close> as in Python;
  \<^item> what a child process returns and what it does to the file system is a parameter
    (\<open>proc\<close>) of the world the script runs in.
\<close>

subsection \<open>Exceptions (lines 71-76)\<close>

datatype exn =
    Fail "string option"
  | OSError "int option" string
  | TypeError
  | SystemExit int

text \<open>\<open>Fail.__str__\<close>.\<close>

fun str_Fail :: "string option \<Rightarrow> string" where
  "str_Fail None = ''ERROR''"
| "str_Fail (Some t) = t"

subsection \<open>Python strings: decimal formatting, split and join\<close>

definition digit_char :: "nat \<Rightarrow> char" where
  "digit_char d = ''0123456789'' ! d"

fun str_nat :: "nat \<Rightarrow> string" where
  "str_nat n = (if n < 10 then [digit_char n] else str_nat (n div 10) @ [digit_char (n mod 10)])"

declare str_nat.simps [simp del]

text \<open>\<open>"%s" % n\<close> and \<open>"%d" % n\<close> for an integer \<open>n\<close>.\<close>

definition str_int :: "int \<Rightarrow> string" where
  "str_int i = (if i < 0 then CHR ''-'' # str_nat (nat (- i)) else str_nat (nat i))"

text \<open>\<open>s.split("/")\<close>: never empty, one more piece than there are slashes.\<close>

fun split_sep :: "string \<Rightarrow> string list" where
  "split_sep [] = [[]]"
| "split_sep (c # cs) =
     (if c = CHR ''/'' then [] # split_sep cs
      else (case split_sep cs of w # ws \<Rightarrow> (c # w) # ws | [] \<Rightarrow> [[c]]))"

text \<open>\<open>"/".join(comps)\<close>.\<close>

fun sep_join :: "string list \<Rightarrow> string" where
  "sep_join [] = []"
| "sep_join [c] = c"
| "sep_join (c # cs) = c @ CHR ''/'' # sep_join cs"

definition startswith :: "string \<Rightarrow> string \<Rightarrow> bool" where
  "startswith s p = (take (length p) s = p)"

subsection \<open>posixpath: isabs, join, normpath, dirname\<close>

definition isabs :: "string \<Rightarrow> bool" where
  "isabs p = startswith p ''/''"

text \<open>\<open>os.path.join(a, b)\<close>: an absolute \<open>b\<close> replaces \<open>a\<close>.\<close>

definition path_join :: "string \<Rightarrow> string \<Rightarrow> string" where
  "path_join a b =
     (if startswith b ''/'' then b
      else if a = [] \<or> last a = CHR ''/'' then a @ b
      else a @ CHR ''/'' # b)"

text \<open>\<open>os.path.join(a, *p)\<close>.\<close>

definition path_join_all :: "string \<Rightarrow> string list \<Rightarrow> string" where
  "path_join_all a ps = foldl path_join a ps"

text \<open>
  One round of the loop of \<open>normpath\<close> over the pieces of the path: empty pieces and
  \<open>.\<close> are skipped, \<open>..\<close> pops the last piece kept (at the root it is dropped;
  in a relative path with nothing to pop, it is kept).
\<close>

definition norm_step :: "nat \<Rightarrow> string list \<Rightarrow> string \<Rightarrow> string list" where
  "norm_step slashes new_comps piece =
     (if piece = [] \<or> piece = ''.'' then new_comps
      else if piece \<noteq> ''..'' \<or> (slashes = 0 \<and> new_comps = [])
              \<or> (new_comps \<noteq> [] \<and> last new_comps = ''..'')
           then new_comps @ [piece]
      else if new_comps \<noteq> [] then butlast new_comps
      else new_comps)"

text \<open>
  POSIX allows one or two initial slashes and treats three or more as one; \<open>normpath\<close>
  keeps that distinction.
\<close>

definition initial_slashes :: "string \<Rightarrow> nat" where
  "initial_slashes path =
     (if startswith path ''/'' then
        (if startswith path ''//'' \<and> \<not> startswith path ''///'' then 2 else 1)
      else 0)"

definition normpath :: "string \<Rightarrow> string" where
  "normpath path =
     (if path = [] then ''.''
      else
        let comps = foldl (norm_step (initial_slashes path)) [] (split_sep path);
            path' = replicate (initial_slashes path) CHR ''/'' @ sep_join comps
        in if path' = [] then ''.'' else path')"

text \<open>\<open>s.rstrip("/")\<close>.\<close>

definition rstrip_sep :: "string \<Rightarrow> string" where
  "rstrip_sep s = rev (dropWhile (\<lambda>c. c = CHR ''/'') (rev s))"

definition dirname :: "string \<Rightarrow> string" where
  "dirname p =
     (let head = rev (dropWhile (\<lambda>c. c \<noteq> CHR ''/'') (rev p))
      in if head \<noteq> [] \<and> filter (\<lambda>c. c \<noteq> CHR ''/'') head \<noteq> [] then rstrip_sep head else head)"

subsection \<open>The file system\<close>

text \<open>
  A directory lists its entries by name, in the order the operating system returns them
  (\<open>os.scandir\<close>). \<open>Special\<close> stands for a FIFO, a socket or a device; a symbolic
  link holds its target as text. A path, once resolved, is the list of names from the
  root.
\<close>

datatype node = File | Dir "(string \<times> node) list" | Special | Link string

fun is_Dir :: "node \<Rightarrow> bool" where
  "is_Dir (Dir es) = True"
| "is_Dir n = False"

text \<open>The entry at a path that goes through directories only; no link is followed.\<close>

fun fs_lookup :: "node \<Rightarrow> string list \<Rightarrow> node option" where
  "fs_lookup n [] = Some n"
| "fs_lookup (Dir es) (c # cs) = (case map_of es c of None \<Rightarrow> None | Some n \<Rightarrow> fs_lookup n cs)"
| "fs_lookup n (c # cs) = None"

text \<open>What \<open>lstat\<close> tells of an entry.\<close>

datatype kind = Regular | Directory | Other | Symlink string

fun kind_of :: "node \<Rightarrow> kind" where
  "kind_of File = Regular"
| "kind_of (Dir es) = Directory"
| "kind_of Special = Other"
| "kind_of (Link target) = Symlink target"

definition fs_kind :: "node \<Rightarrow> string list \<Rightarrow> kind option" where
  "fs_kind t p = map_option kind_of (fs_lookup t p)"

text \<open>Removes the entry at a path, with everything below it; the root is never an entry.\<close>

fun fs_delete :: "node \<Rightarrow> string list \<Rightarrow> node" where
  "fs_delete (Dir es) [c] = Dir (filter (\<lambda>e. fst e \<noteq> c) es)"
| "fs_delete (Dir es) (c # cs) =
     Dir (map (\<lambda>e. if fst e = c then (fst e, fs_delete (snd e) cs) else e) es)"
| "fs_delete n p = n"

text \<open>Adds an entry at a path whose parent is a directory, last in its listing.\<close>

fun fs_insert :: "node \<Rightarrow> string list \<Rightarrow> node \<Rightarrow> node" where
  "fs_insert (Dir es) [c] x = Dir (es @ [(c, x)])"
| "fs_insert (Dir es) (c # cs) x =
     Dir (map (\<lambda>e. if fst e = c then (fst e, fs_insert (snd e) cs x) else e) es)"
| "fs_insert n p x = n"

text \<open>
  Path resolution as the kernel does it, from the resolved path \<open>canon\<close> of a
  directory along the names \<open>cs\<close>: empty names and \<open>.\<close> stay, \<open>..\<close> goes up, a
  symbolic link is replaced by its target (from the root when the target is absolute).
  At most \<open>fuel\<close> links are followed (ELOOP, 40); a missing name is ENOENT (2), a
  name below something that is not a directory is ENOTDIR (20). The result is the
  path with no link left in it, and the fuel that remains.
\<close>

function walk :: "nat \<Rightarrow> node \<Rightarrow> string list \<Rightarrow> string list \<Rightarrow> int + nat \<times> string list" where
  "walk fuel t canon [] = Inr (fuel, canon)"
| "walk fuel t canon (c # cs) =
     (case fs_kind t canon of
        Some Directory \<Rightarrow>
          (if c = [] \<or> c = ''.'' then walk fuel t canon cs
           else if c = ''..'' then walk fuel t (butlast canon) cs
           else (case fs_kind t (canon @ [c]) of
                   None \<Rightarrow> Inl 2
                 | Some (Symlink target) \<Rightarrow>
                     (if fuel = 0 then Inl 40
                      else if target = [] then Inl 2
                      else walk (fuel - 1) t (if isabs target then [] else canon)
                             (split_sep target @ cs))
                 | Some k \<Rightarrow> walk fuel t (canon @ [c]) cs))
      | _ \<Rightarrow> Inl 20)"
  by pat_completeness auto
termination
  by (relation "measures [\<lambda>(fuel, t, canon, cs). fuel, \<lambda>(fuel, t, canon, cs). length cs]") auto

text \<open>The kernel follows at most 40 links in one resolution.\<close>

definition max_links :: nat where
  "max_links = 40"

text \<open>\<open>stat\<close>: the kind of what a path resolves to, links followed to the end.\<close>

definition fs_stat :: "node \<Rightarrow> string list \<Rightarrow> int + kind" where
  "fs_stat t p =
     (case walk max_links t [] p of
        Inl e \<Rightarrow> Inl e
      | Inr (fuel, canon) \<Rightarrow> (case fs_kind t canon of None \<Rightarrow> Inl 2 | Some k \<Rightarrow> Inr k))"

text \<open>
  Where the entry named by a path lives: the resolved path of its directory, then its
  own name, which is not followed (as \<open>lstat\<close>, \<open>mkdir\<close> and \<open>unlink\<close> read it).
\<close>

definition fs_entry :: "node \<Rightarrow> string list \<Rightarrow> int + string list" where
  "fs_entry t p =
     (case walk max_links t [] (butlast p) of
        Inl e \<Rightarrow> Inl e
      | Inr (fuel, canon) \<Rightarrow>
          (case fs_kind t canon of Some Directory \<Rightarrow> Inr (canon @ [last p]) | _ \<Rightarrow> Inl 20))"

fun errno_text :: "int \<Rightarrow> string" where
  "errno_text e =
     (if e = 2 then ''No such file or directory''
      else if e = 16 then ''Device or resource busy''
      else if e = 17 then ''File exists''
      else if e = 20 then ''Not a directory''
      else if e = 21 then ''Is a directory''
      else if e = 40 then ''Too many levels of symbolic links''
      else ''Unknown error'')"

definition os_error :: "int \<Rightarrow> exn" where
  "os_error e = OSError (Some e) (errno_text e)"

text \<open>\<open>os.mkdir\<close>: the directory of the new entry must resolve, the entry must not be there.\<close>

definition fs_mkdir :: "node \<Rightarrow> string list \<Rightarrow> exn + node" where
  "fs_mkdir t p =
     (if p = [] then Inl (os_error 17)
      else case fs_entry t p of
             Inl e \<Rightarrow> Inl (os_error e)
           | Inr q \<Rightarrow>
               (case fs_kind t q of
                  Some k \<Rightarrow> Inl (os_error 17)
                | None \<Rightarrow> Inr (fs_insert t q (Dir []))))"

text \<open>\<open>FileExistsError\<close> is the \<open>OSError\<close> with EEXIST (17).\<close>

fun is_FileExistsError :: "exn \<Rightarrow> bool" where
  "is_FileExistsError (OSError (Some e) m) = (e = 17)"
| "is_FileExistsError e = False"

definition mkdir_step :: "node \<Rightarrow> string list \<Rightarrow> exn option \<times> node" where
  "mkdir_step t p = (case fs_mkdir t p of Inl e \<Rightarrow> (Some e, t) | Inr t' \<Rightarrow> (None, t'))"

text \<open>
  \<open>os.makedirs\<close>, on the names of the path in reverse: when the parent does not exist
  it is made first, and a \<open>FileExistsError\<close> from that is passed over; then the
  directory itself is made. What was created before a failure stays.
\<close>

fun fs_makedirs :: "node \<Rightarrow> string list \<Rightarrow> exn option \<times> node" where
  "fs_makedirs t [] = mkdir_step t []"
| "fs_makedirs t (c # r) =
     (case (case fs_stat t (rev r) of
              Inl e \<Rightarrow> fs_makedirs t r
            | Inr k \<Rightarrow> (None, t)) of
        (None, t1) \<Rightarrow> mkdir_step t1 (rev (c # r))
      | (Some e, t1) \<Rightarrow>
          (if is_FileExistsError e then mkdir_step t1 (rev (c # r)) else (Some e, t1)))"

subsection \<open>Command line options (lines 261-293)\<close>

text \<open>
  The namespace \<open>argparse\<close> returns. \<open>emscripten_dir\<close> is \<open>None\<close> when neither
  the option nor the environment gives it.
\<close>

record options =
  build_dir :: string
  opencv_dir :: string
  emscripten_dir :: "string option"
  build_wasm :: bool
  disable_wasm :: bool
  build_test :: bool
  build_doc :: bool
  clean_build_dir :: bool
  skip_config :: bool
  config_only :: bool
  enable_exception :: bool

text \<open>The command line as typed: the two directory options may be left out.\<close>

record cmdline =
  arg_build_dir :: string
  arg_opencv_dir :: "string option"
  arg_emscripten_dir :: "string option"
  arg_build_wasm :: bool
  arg_disable_wasm :: bool
  arg_build_test :: bool
  arg_build_doc :: bool
  arg_clean_build_dir :: bool
  arg_skip_config :: bool
  arg_config_only :: bool
  arg_enable_exception :: bool

subsection \<open>Interpreter state and the world outside\<close>

text \<open>What \<open>subprocess.call\<close> does: it returns the exit status or raises \<open>OSError\<close>.\<close>

datatype call_result = Returned int | Launch_failed int string

text \<open>
  A log record keeps the format string and its arguments, as \<open>logging\<close> does.
  (Line 81 formats the command list with \<open>%\<close> before the call; the record keeps the
  list itself.)
\<close>

datatype pyval = PNone | PStr string | PBool bool | PList "string list" | PArgs options

datatype log_record = Info string "pyval list" | Debug string "pyval list"

record state =
  fs :: node
  cwd :: "string list"
  logged :: "log_record list"
  trace :: "(string list \<times> call_result) list"

text \<open>
  The world: the environment variables, the path of the script
  (\<open>__file__\<close>), the number of processors, and the child processes: given the
  command, its environment, the working directory and the file system, a child
  returns its outcome and the file system it leaves. \<open>glob_magic\<close> is what
  \<open>glob.glob\<close> returns for \<open>d/*\<close> when the directory name \<open>d\<close> itself has
  pattern characters; the pattern language of \<open>fnmatch\<close> is not modelled.
\<close>

record world =
  environ :: "string \<Rightarrow> string option"
  script_file :: string
  cpu_count :: nat
  proc :: "string list \<Rightarrow> (string \<Rightarrow> string option) \<Rightarrow> string list \<Rightarrow> node \<Rightarrow> call_result \<times> node"
  glob_magic :: "string \<Rightarrow> string list \<Rightarrow> node \<Rightarrow> string list"

type_synonym 'a result = "(exn + 'a) \<times> state"

definition log_info :: "string \<Rightarrow> pyval list \<Rightarrow> state \<Rightarrow> state" where
  "log_info msg args st = st\<lparr>logged := logged st @ [Info msg args]\<rparr>"

definition log_debug :: "string \<Rightarrow> pyval list \<Rightarrow> state \<Rightarrow> state" where
  "log_debug msg args st = st\<lparr>logged := logged st @ [Debug msg args]\<rparr>"

subsection \<open>os and os.path on the state\<close>

text \<open>\<open>os.getcwd()\<close>: the working directory, canonical.\<close>

definition getcwd :: "state \<Rightarrow> string" where
  "getcwd st = CHR ''/'' # sep_join (cwd st)"

definition abspath :: "state \<Rightarrow> string \<Rightarrow> string" where
  "abspath st path = normpath (if \<not> isabs path then path_join (getcwd st) path else path)"

text \<open>
  The names of a path from the root, as the operating system reads the text: runs of
  slashes count as one, a relative path starts at the working directory. The script
  hands every path to \<open>abspath\<close> first, so no path read here ends in a slash.
\<close>

definition path_comps :: "string \<Rightarrow> string list" where
  "path_comps p = filter (\<lambda>c. c \<noteq> []) (split_sep p)"

definition resolve :: "state \<Rightarrow> string \<Rightarrow> string list" where
  "resolve st p = (if isabs p then path_comps p else cwd st @ path_comps p)"

text \<open>\<open>os.path.exists\<close>, \<open>isdir\<close> and \<open>isfile\<close> follow links; a failing \<open>stat\<close> is \<open>False\<close>.\<close>

definition path_exists :: "state \<Rightarrow> string \<Rightarrow> bool" where
  "path_exists st p = (case fs_stat (fs st) (resolve st p) of Inl e \<Rightarrow> False | Inr k \<Rightarrow> True)"

definition isdir :: "state \<Rightarrow> string \<Rightarrow> bool" where
  "isdir st p = (fs_stat (fs st) (resolve st p) = Inr Directory)"

definition isfile :: "state \<Rightarrow> string \<Rightarrow> bool" where
  "isfile st p = (fs_stat (fs st) (resolve st p) = Inr Regular)"

definition makedirs :: "string \<Rightarrow> state \<Rightarrow> unit result" where
  "makedirs p st =
     (case fs_makedirs (fs st) (rev (resolve st p)) of
        (Some e, t) \<Rightarrow> (Inl e, st\<lparr>fs := t\<rparr>)
      | (None, t) \<Rightarrow> (Inr (), st\<lparr>fs := t\<rparr>))"

text \<open>
  \<open>shutil.rmtree\<close> removes a directory with all below it, following no link on the
  way down; on a symbolic link it raises \<open>OSError\<close> (with no error number). Removing
  the root empties it and then fails (EBUSY, 16).
\<close>

definition rmtree :: "string \<Rightarrow> state \<Rightarrow> unit result" where
  "rmtree p st =
     (if resolve st p = [] then
        (case fs_kind (fs st) [] of
           Some Directory \<Rightarrow> (Inl (os_error 16), st\<lparr>fs := Dir []\<rparr>)
         | _ \<Rightarrow> (Inl (os_error 20), st))
      else case fs_entry (fs st) (resolve st p) of
             Inl e \<Rightarrow> (Inl (os_error e), st)
           | Inr q \<Rightarrow>
               (case fs_kind (fs st) q of
                  None \<Rightarrow> (Inl (os_error 2), st)
                | Some Directory \<Rightarrow> (Inr (), st\<lparr>fs := fs_delete (fs st) q\<rparr>)
                | Some (Symlink target) \<Rightarrow>
                    (Inl (OSError None ''Cannot call rmtree on a symbolic link''), st)
                | Some k \<Rightarrow> (Inl (os_error 20), st)))"

text \<open>\<open>os.remove\<close> unlinks the entry itself, whatever it is but a directory.\<close>

definition os_remove :: "string \<Rightarrow> state \<Rightarrow> unit result" where
  "os_remove p st =
     (if resolve st p = [] then (Inl (os_error 21), st)
      else case fs_entry (fs st) (resolve st p) of
             Inl e \<Rightarrow> (Inl (os_error e), st)
           | Inr q \<Rightarrow>
               (case fs_kind (fs st) q of
                  None \<Rightarrow> (Inl (os_error 2), st)
                | Some Directory \<Rightarrow> (Inl (os_error 21), st)
                | Some k \<Rightarrow> (Inr (), st\<lparr>fs := fs_delete (fs st) q\<rparr>)))"

text \<open>\<open>os.chdir\<close>: the working directory becomes the resolved path.\<close>

definition chdir :: "string \<Rightarrow> state \<Rightarrow> unit result" where
  "chdir p st =
     (case walk max_links (fs st) [] (resolve st p) of
        Inl e \<Rightarrow> (Inl (os_error e), st)
      | Inr (fuel, canon) \<Rightarrow>
          (case fs_kind (fs st) canon of
             None \<Rightarrow> (Inl (os_error 2), st)
           | Some Directory \<Rightarrow> (Inr (), st\<lparr>cwd := canon\<rparr>)
           | Some k \<Rightarrow> (Inl (os_error 20), st)))"

text \<open>
  \<open>glob.glob(os.path.join(d, "*"))\<close>. A directory name \<open>d\<close> without pattern characters
  is taken as it is: the result lists the entries of \<open>d\<close> whose names do not start
  with a dot. With \<open>*\<close>, \<open>?\<close> or \<open>[\<close> in \<open>d\<close> the name is a pattern itself, and
  the result is the world's.
\<close>

definition has_magic :: "string \<Rightarrow> bool" where
  "has_magic s = list_ex (\<lambda>c. c = CHR ''*'' \<or> c = CHR ''?'' \<or> c = CHR ''['') s"

definition glob_star :: "world \<Rightarrow> state \<Rightarrow> string \<Rightarrow> string list" where
  "glob_star w st d =
     (if has_magic d then glob_magic w d (cwd st) (fs st)
      else case walk max_links (fs st) [] (resolve st d) of
             Inl e \<Rightarrow> []
           | Inr (fuel, canon) \<Rightarrow>
               (case fs_lookup (fs st) canon of
                  Some (Dir es) \<Rightarrow>
                    map (\<lambda>e. path_join d (fst e))
                      (filter (\<lambda>e. fst e \<noteq> [] \<and> hd (fst e) \<noteq> CHR ''.'') es)
                | _ \<Rightarrow> []))"

text \<open>Sequencing: an exception ends the run of statements; the state stays as it is then.\<close>

definition andthen :: "(state \<Rightarrow> 'a result) \<Rightarrow> ('a \<Rightarrow> state \<Rightarrow> 'b result) \<Rightarrow> state \<Rightarrow> 'b result" where
  "andthen m f st = (case m st of (Inl e, st') \<Rightarrow> (Inl e, st') | (Inr a, st') \<Rightarrow> f a st')"

definition done_unit :: "state \<Rightarrow> unit result" where
  "done_unit st = (Inr (), st)"

definition info :: "string \<Rightarrow> pyval list \<Rightarrow> state \<Rightarrow> unit result" where
  "info msg args st = (Inr (), log_info msg args st)"

text \<open>\<open>for x in xs: f(x)\<close>, and a block of statements.\<close>

fun for_each :: "('a \<Rightarrow> state \<Rightarrow> unit result) \<Rightarrow> 'a list \<Rightarrow> state \<Rightarrow> unit result" where
  "for_each f [] st = (Inr (), st)"
| "for_each f (x # xs) st =
     (case f x st of (Inl e, st') \<Rightarrow> (Inl e, st') | (Inr u, st') \<Rightarrow> for_each f xs st')"

definition seq :: "(state \<Rightarrow> unit result) list \<Rightarrow> state \<Rightarrow> unit result" where
  "seq ms = for_each (\<lambda>m. m) ms"

definition py_when :: "bool \<Rightarrow> (state \<Rightarrow> unit result) \<Rightarrow> state \<Rightarrow> unit result" where
  "py_when c m = (if c then m else done_unit)"

definition sys_exit :: "int \<Rightarrow> state \<Rightarrow> unit result" where
  "sys_exit n st = (Inl (SystemExit n), st)"


subsection \<open>execute (lines 79-90)\<close>

definition execute :: "world \<Rightarrow> string list \<Rightarrow> state \<Rightarrow> unit result" where
  "execute w cmd st =
     (let st1 = log_info ''Executing: %s'' [PList cmd] st;
          env = (environ w)(''VERBOSE'' \<mapsto> ''1'');
          r = proc w cmd env (cwd st1) (fs st1);
          st2 = st1\<lparr>fs := snd r, trace := trace st1 @ [(cmd, fst r)]\<rparr>
      in case fst r of
           Returned retcode \<Rightarrow>
             if retcode < 0 then
               (Inl (Fail (Some (''Child was terminated by signal: '' @ str_int (- retcode)))), st2)
             else if retcode > 0 then
               (Inl (Fail (Some (''Child returned: '' @ str_int retcode))), st2)
             else (Inr (), st2)
         | Launch_failed errno strerror \<Rightarrow>
             (Inl (Fail (Some (''Execution failed: '' @ str_int errno @ '' / '' @ strerror))), st2))"

subsection \<open>rm\_one, check\_dir, check\_file, find\_file (lines 93-132)\<close>

definition rm_one :: "string \<Rightarrow> state \<Rightarrow> unit result" where
  "rm_one d0 st =
     (let d = abspath st d0 in
      if path_exists st d then
        (if isdir st d then rmtree d (log_info ''Removing dir: %s'' [PStr d] st)
         else if isfile st d then os_remove d (log_info ''Removing file: %s'' [PStr d] st)
         else (Inr (), st))
      else (Inr (), st))"

definition check_dir :: "world \<Rightarrow> string \<Rightarrow> bool \<Rightarrow> bool \<Rightarrow> state \<Rightarrow> string result" where
  "check_dir w d0 create clean st0 =
     (let d = abspath st0 d0;
          st = log_info ''Check dir %s (create: %s, clean: %s)'' [PStr d, PBool create, PBool clean] st0
      in if path_exists st d then
           (if \<not> isdir st d then (Inl (Fail (Some (''Not a directory: '' @ d))), st)
            else if clean then
              andthen (for_each rm_one (glob_star w st d)) (\<lambda>u st'. (Inr d, st')) st
            else (Inr d, st))
         else if create then andthen (makedirs d) (\<lambda>u st'. (Inr d, st')) st
         else (Inr d, st))"

text \<open>\<open>check_file(None)\<close> reaches \<open>os.path.abspath(None)\<close>, which raises \<open>TypeError\<close>.\<close>

definition check_file :: "string option \<Rightarrow> state \<Rightarrow> bool result" where
  "check_file d0 st =
     (case d0 of
        None \<Rightarrow> (Inl TypeError, st)
      | Some d1 \<Rightarrow>
          (let d = abspath st d1 in
           if path_exists st d then (if isfile st d then (Inr True, st) else (Inr False, st))
           else (Inr False, st)))"

fun first_some :: "'a option list \<Rightarrow> 'a option" where
  "first_some [] = None"
| "first_some (None # xs) = first_some xs"
| "first_some (Some x # xs) = Some x"

text \<open>
  \<open>os.walk\<close> visits a directory before its subdirectories, each subdirectory in
  listing order; \<open>files\<close> are the entries that are not directories. The search returns
  at the first directory that has the name among its files.
\<close>

text \<open>
  \<open>os.walk\<close> visits a directory before its subdirectories, each subdirectory in
  listing order. An entry counts as a directory when it is one or is a link that leads
  to one; \<open>files\<close> are the other entries. Directories reached through a link are
  listed but not visited. The search returns at the first directory that has the
  name among its files.
\<close>

definition entry_is_dir :: "node \<Rightarrow> string list \<Rightarrow> string \<times> node \<Rightarrow> bool" where
  "entry_is_dir t canon e =
     (case snd e of
        Dir es \<Rightarrow> True
      | Link target \<Rightarrow> fs_stat t (canon @ [fst e]) = Inr Directory
      | _ \<Rightarrow> False)"

function find_in :: "node \<Rightarrow> string list \<Rightarrow> string \<Rightarrow> string \<Rightarrow> node \<Rightarrow> string option" where
  "find_in t canon name root (Dir es) =
     (if name \<in> set (map fst (filter (\<lambda>e. \<not> entry_is_dir t canon e) es))
      then Some (path_join root name)
      else first_some
             (map (\<lambda>e. find_in t (canon @ [fst e]) name (path_join root (fst e)) (snd e))
                  (filter (\<lambda>e. is_Dir (snd e)) es)))"
| "find_in t canon name root File = None"
| "find_in t canon name root Special = None"
| "find_in t canon name root (Link target) = None"
  by pat_completeness auto
termination
proof (relation "measure (\<lambda>(t, canon, name, root, n). size n)")
  show "wf (measure (\<lambda>(t, canon, name, root, n). size n))" by simp
next
  fix t :: node and canon :: "string list" and name :: string and root :: string
    and es :: "(string \<times> node) list" and x :: "string \<times> node"
  assume "x \<in> set (filter (\<lambda>e. is_Dir (snd e)) es)"
  then have "x \<in> set es" by simp
  then have "size (snd x) < Suc (size_list (size_prod (\<lambda>x. 0) size) es)"
    by (induction es) (auto simp: less_Suc_eq_le)
  then show "((t, canon @ [fst x], name, path_join root (fst x), snd x), (t, canon, name, root, Dir es))
               \<in> measure (\<lambda>(t, canon, name, root, n). size n)"
    by simp
qed

text \<open>
  \<open>find_file\<close> returns \<open>None\<close> when the walk ends without a match; a top that is
  not a directory is walked as an empty one.
\<close>

definition find_file :: "state \<Rightarrow> string \<Rightarrow> string \<Rightarrow> string option" where
  "find_file st name path =
     (case walk max_links (fs st) [] (resolve st path) of
        Inl e \<Rightarrow> None
      | Inr (fuel, canon) \<Rightarrow>
          (case fs_lookup (fs st) canon of
             Some n \<Rightarrow> find_in (fs st) canon name path n
           | None \<Rightarrow> None))"

subsection \<open>class Builder (lines 135-250)\<close>

record builder =
  self_options :: options
  self_build_dir :: string
  self_opencv_dir :: string
  self_emscripten_dir :: string

definition Builder_init :: "world \<Rightarrow> options \<Rightarrow> state \<Rightarrow> builder result" where
  "Builder_init w opts =
     andthen (check_dir w (build_dir opts) True False) (\<lambda>bd.
     andthen (check_dir w (opencv_dir opts) False False) (\<lambda>od.
     andthen (case emscripten_dir opts of
                None \<Rightarrow> (\<lambda>st. (Inl TypeError, st))
              | Some e \<Rightarrow> check_dir w e False False) (\<lambda>ed st.
       (Inr \<lparr>self_options = opts, self_build_dir = bd, self_opencv_dir = od,
             self_emscripten_dir = ed\<rparr>, st))))"

definition Builder_get_toolchain_file :: "builder \<Rightarrow> string" where
  "Builder_get_toolchain_file b =
     path_join_all (self_emscripten_dir b) [''cmake'', ''Modules'', ''Platform'', ''Emscripten.cmake'']"

definition Builder_clean_build_dir :: "state \<Rightarrow> unit result" where
  "Builder_clean_build_dir =
     for_each rm_one [''CMakeCache.txt'', ''CMakeFiles/'', ''bin/'', ''libs/'', ''lib/'', ''modules'']"

text \<open>\<open>"'%s'" % s\<close>: the text between single quotes.\<close>

definition quoted :: "string \<Rightarrow> string" where
  "quoted s = CHR 0x27 # s @ [CHR 0x27]"

definition Builder_get_build_flags :: "builder \<Rightarrow> string" where
  "Builder_get_build_flags b =
     (let flags = [] @ ''-s USE_PTHREADS=0 '';
          flags = (if build_wasm (self_options b) then flags @ ''-s WASM=1 ''
                   else if disable_wasm (self_options b) then flags @ ''-s WASM=0 ''
                   else flags);
          flags = (if enable_exception (self_options b)
                   then flags @ ''-s DISABLE_EXCEPTION_CATCHING=0 '' else flags)
      in flags)"

text \<open>The toggles of lines 156-215, after the build type and the toolchain file.\<close>

definition baseline_toggles :: "string list" where
  "baseline_toggles =
     [''-DCPU_BASELINE='' @ quoted [],
      ''-DCPU_DISPATCH='' @ quoted [],
      ''-DCV_TRACE=OFF'',
      ''-DBUILD_SHARED_LIBS=OFF'',
      ''-DWITH_1394=OFF'',
      ''-DWITH_ADE=OFF'',
      ''-DWITH_VTK=OFF'',
      ''-DWITH_EIGEN=OFF'',
      ''-DWITH_FFMPEG=OFF'',
      ''-DWITH_GSTREAMER=OFF'',
      ''-DWITH_GTK=OFF'',
      ''-DWITH_GTK_2_X=OFF'',
      ''-DWITH_IPP=OFF'',
      ''-DWITH_JASPER=OFF'',
      ''-DWITH_JPEG=OFF'',
      ''-DWITH_WEBP=OFF'',
      ''-DWITH_OPENEXR=OFF'',
      ''-DWITH_OPENGL=OFF'',
      ''-DWITH_OPENVX=OFF'',
      ''-DWITH_OPENNI=OFF'',
      ''-DWITH_OPENNI2=OFF'',
      ''-DWITH_PNG=OFF'',
      ''-DWITH_TBB=OFF'',
      ''-DWITH_PTHREADS_PF=OFF'',
      ''-DWITH_TIFF=OFF'',
      ''-DWITH_V4L=OFF'',
      ''-DWITH_OPENCL=OFF'',
      ''-DWITH_OPENCL_SVM=OFF'',
      ''-DWITH_OPENCLAMDFFT=OFF'',
      ''-DWITH_OPENCLAMDBLAS=OFF'',
      ''-DWITH_GPHOTO2=OFF'',
      ''-DWITH_LAPACK=OFF'',
      ''-DWITH_ITT=OFF'',
      ''-DWITH_QUIRC=OFF'',
      ''-DBUILD_ZLIB=ON'',
      ''-DBUILD_opencv_apps=OFF'',
      ''-DBUILD_opencv_calib3d=ON'',
      ''-DBUILD_opencv_dnn=ON'',
      ''-DBUILD_opencv_features2d=ON'',
      ''-DBUILD_opencv_flann=ON'',
      ''-DBUILD_opencv_gapi=OFF'',
      ''-DBUILD_opencv_ml=OFF'',
      ''-DBUILD_opencv_photo=ON'',
      ''-DBUILD_opencv_imgcodecs=OFF'',
      ''-DBUILD_opencv_shape=OFF'',
      ''-DBUILD_opencv_videoio=OFF'',
      ''-DBUILD_opencv_videostab=OFF'',
      ''-DBUILD_opencv_highgui=OFF'',
      ''-DBUILD_opencv_superres=OFF'',
      ''-DBUILD_opencv_stitching=OFF'',
      ''-DBUILD_opencv_java=OFF'',
      ''-DBUILD_opencv_java_bindings_generator=OFF'',
      ''-DBUILD_opencv_js=ON'',
      ''-DBUILD_opencv_python2=OFF'',
      ''-DBUILD_opencv_python3=OFF'',
      ''-DBUILD_opencv_python_bindings_generator=OFF'',
      ''-DBUILD_EXAMPLES=OFF'',
      ''-DBUILD_PACKAGE=OFF'',
      ''-DBUILD_TESTS=OFF'',
      ''-DBUILD_PERF_TESTS=OFF'']"

definition Builder_get_cmake_cmd :: "builder \<Rightarrow> string list" where
  "Builder_get_cmake_cmd b =
     (let cmd = [''cmake'',
                 ''-DCMAKE_BUILD_TYPE=Release'',
                 ''-DCMAKE_TOOLCHAIN_FILE='' @ quoted (Builder_get_toolchain_file b)]
                @ baseline_toggles;
          cmd = (if build_doc (self_options b) then cmd @ [''-DBUILD_DOCS=ON'']
                 else cmd @ [''-DBUILD_DOCS=OFF'']);
          flags = Builder_get_build_flags b
      in if flags \<noteq> [] then
           cmd @ [''-DCMAKE_C_FLAGS='' @ quoted flags, ''-DCMAKE_CXX_FLAGS='' @ quoted flags]
         else cmd)"

definition Builder_config :: "world \<Rightarrow> builder \<Rightarrow> state \<Rightarrow> unit result" where
  "Builder_config w b = execute w (Builder_get_cmake_cmd b @ [self_opencv_dir b])"

definition Builder_build_opencvjs :: "world \<Rightarrow> state \<Rightarrow> unit result" where
  "Builder_build_opencvjs w = execute w [''make'', ''-j'', str_nat (cpu_count w), ''opencv.js'']"

definition Builder_build_test :: "world \<Rightarrow> state \<Rightarrow> unit result" where
  "Builder_build_test w = execute w [''make'', ''-j'', str_nat (cpu_count w), ''opencv_js_test'']"

definition Builder_build_doc :: "world \<Rightarrow> state \<Rightarrow> unit result" where
  "Builder_build_doc w = execute w [''make'', ''-j'', str_nat (cpu_count w), ''doxygen'']"

subsection \<open>The script body (lines 255-364)\<close>

text \<open>
  Lines 68 and 256-293: the defaults and the parsed options. The source directory defaults
  to two levels above the script, the toolchain directory to the environment variable
  \<open>EMSCRIPTEN\<close>.
\<close>

definition parse_args :: "world \<Rightarrow> state \<Rightarrow> cmdline \<Rightarrow> options" where
  "parse_args w st c =
     (let SCRIPT_DIR = dirname (abspath st (script_file w));
          opencv_dir_default = abspath st (path_join SCRIPT_DIR ''../..'');
          emscripten_dir_default = environ w ''EMSCRIPTEN''
      in \<lparr>build_dir = arg_build_dir c,
          opencv_dir = (case arg_opencv_dir c of None \<Rightarrow> opencv_dir_default | Some d \<Rightarrow> d),
          emscripten_dir =
            (case arg_emscripten_dir c of None \<Rightarrow> emscripten_dir_default | Some d \<Rightarrow> Some d),
          build_wasm = arg_build_wasm c,
          disable_wasm = arg_disable_wasm c,
          build_test = arg_build_test c,
          build_doc = arg_build_doc c,
          clean_build_dir = arg_clean_build_dir c,
          skip_config = arg_skip_config c,
          config_only = arg_config_only c,
          enable_exception = arg_enable_exception c\<rparr>)"

text \<open>The three log lines around each stage.\<close>

definition banner :: "string \<Rightarrow> pyval list \<Rightarrow> state \<Rightarrow> unit result" where
  "banner msg args = seq [info ''====='' [], info msg args, info ''====='' []]"

definition target_name :: "options \<Rightarrow> string" where
  "target_name args =
     (if build_wasm args then ''wasm''
      else if disable_wasm args then ''asm.js''
      else ''default target'')"

text \<open>Lines 349-351, 353-356 and 358-364: where the artifacts are, if they are there.\<close>

definition report_opencvjs :: "builder \<Rightarrow> state \<Rightarrow> unit result" where
  "report_opencvjs b =
     (let opencvjs_path = path_join_all (self_build_dir b) [''bin'', ''opencv.js'']
      in andthen (check_file (Some opencvjs_path)) (\<lambda>found.
           py_when found (info ''OpenCV.js location: %s'' [PStr opencvjs_path])))"

definition report_test :: "builder \<Rightarrow> state \<Rightarrow> unit result" where
  "report_test b =
     (let opencvjs_test_path = path_join_all (self_build_dir b) [''bin'', ''tests.html'']
      in andthen (check_file (Some opencvjs_test_path)) (\<lambda>found.
           py_when found (info ''OpenCV.js tests location: %s'' [PStr opencvjs_test_path])))"

definition report_doc :: "builder \<Rightarrow> state \<Rightarrow> unit result" where
  "report_doc b st =
     (let opencvjs_tutorial_path =
            find_file st ''tutorial_js_root.html''
              (path_join_all (self_build_dir b) [''doc'', ''doxygen'', ''html''])
      in andthen (check_file opencvjs_tutorial_path) (\<lambda>found.
           py_when found
             (info ''OpenCV.js tutorials location: %s''
                [case opencvjs_tutorial_path of None \<Rightarrow> PNone | Some p \<Rightarrow> PStr p])) st)"

text \<open>Lines 306-364, once the builder stands.\<close>

definition main_steps :: "world \<Rightarrow> options \<Rightarrow> builder \<Rightarrow> state \<Rightarrow> unit result" where
  "main_steps w args b =
     seq [chdir (self_build_dir b),
          py_when (clean_build_dir args)
            (seq [banner ''===== Clean build dir %s'' [PStr (self_build_dir b)],
                  Builder_clean_build_dir]),
          py_when (\<not> skip_config args)
            (seq [banner (''===== Config OpenCV.js build for '' @ target_name args) [],
                  Builder_config w b]),
          py_when (config_only args) (sys_exit 0),
          banner ''===== Building OpenCV.js'' [],
          Builder_build_opencvjs w,
          py_when (build_test args)
            (seq [banner ''===== Building OpenCV.js tests'' [], Builder_build_test w]),
          py_when (build_doc args)
            (seq [banner ''===== Building OpenCV.js tutorials'' [], Builder_build_doc w]),
          banner ''===== Build finished'' [],
          report_opencvjs b,
          py_when (build_test args) (report_test b),
          py_when (build_doc args) (report_doc b)]"

text \<open>The whole run: lines 255-304, then the steps.\<close>

definition main :: "world \<Rightarrow> cmdline \<Rightarrow> state \<Rightarrow> unit result" where
  "main w c st0 =
     (let args = parse_args w st0 c;
          st = log_debug ''Args: %s'' [PArgs args] st0
      in if emscripten_dir args = None then
           seq [info ''Cannot get Emscripten path, please specify it either by EMSCRIPTEN environment variable or --emscripten_dir option.'' [],
                sys_exit (- 1)] st
         else andthen (Builder_init w args) (\<lambda>builder. main_steps w args builder) st)"

text \<open>
  The exit status the shell sees: 0 when the script runs to its end, the low byte of the
  argument of \<open>sys.exit\<close>, and 1 when an exception reaches the top.
\<close>

fun exit_status :: "exn + unit \<Rightarrow> int" where
  "exit_status (Inr u) = 0"
| "exit_status (Inl (SystemExit n)) = n mod 256"
| "exit_status (Inl e) = 1"

subsection \<open>Example runs\<close>

text \<open>
  A small machine for the concrete runs below: the toolchain lives in \<open>/em\<close>, the
  sources in \<open>/src\<close>, the script is started in the root directory, and every
  child process ends the same way and leaves the file system alone.
\<close>

definition ex_fs :: node where
  "ex_fs = Dir [(''em'', Dir []), (''src'', Dir [])]"

definition ex_state :: state where
  "ex_state = \<lparr>fs = ex_fs, cwd = [], logged = [], trace = []\<rparr>"

definition ex_world :: "call_result \<Rightarrow> world" where
  "ex_world r = \<lparr>environ = Map.empty(''EMSCRIPTEN'' \<mapsto> ''/em''),
                 script_file = ''/src/platforms/js/build_js.py'',
                 cpu_count = 4,
                 proc = (\<lambda>cmd env wd t. (r, t)),
                 glob_magic = (\<lambda>d wd t. [])\<rparr>"

subsection \<open>Judgements about statements\<close>

text \<open>Every exception a statement can raise satisfies \<open>P\<close>.\<close>

definition raises_only :: "(exn \<Rightarrow> bool) \<Rightarrow> (state \<Rightarrow> 'a result) \<Rightarrow> bool" where
  "raises_only P m = (\<forall>st e. fst (m st) = Inl e \<longrightarrow> P e)"

text \<open>No exit but \<open>sys.exit(0)\<close>.\<close>

fun exit_zero_only :: "exn \<Rightarrow> bool" where
  "exit_zero_only (SystemExit n) = (n = 0)"
| "exit_zero_only e = True"

definition ex_builder :: "bool \<Rightarrow> builder" where
  "ex_builder t =
     \<lparr>self_options =
        \<lparr>build_dir = ''out'', opencv_dir = ''/src'', emscripten_dir = Some ''/em'',
         build_wasm = False, disable_wasm = False, build_test = t, build_doc = False,
         clean_build_dir = False, skip_config = False, config_only = False,
         enable_exception = False\<rparr>,
      self_build_dir = ''/out'', self_opencv_dir = ''/src'', self_emscripten_dir = ''/em''\<rparr>"

definition ex_cmdline :: cmdline where
  "ex_cmdline =
     \<lparr>arg_build_dir = ''out'', arg_opencv_dir = None, arg_emscripten_dir = None,
      arg_build_wasm = False, arg_disable_wasm = False, arg_build_test = False,
      arg_build_doc = False, arg_clean_build_dir = False, arg_skip_config = False,
      arg_config_only = False, arg_enable_exception = False\<rparr>"

text \<open>What is at a path: a regular file, a directory, or nothing.\<close>

text \<open>A name of a directory entry: not empty, no slash, neither \<open>.\<close> nor \<open>..\<close>.\<close>

definition valid_name :: "string \<Rightarrow> bool" where
  "valid_name n = (n \<noteq> [] \<and> CHR ''/'' \<notin> set n \<and> n \<noteq> ''.'' \<and> n \<noteq> ''..'')"





text \<open>
  A statement that always returns, starts no child process and leaves the file system and
  the working directory as they are (it may log).
\<close>

definition quiet :: "(state \<Rightarrow> unit result) \<Rightarrow> bool" where
  "quiet m = (\<forall>st. \<exists>st'. m st = (Inr (), st')
                \<and> fs st' = fs st \<and> cwd st' = cwd st \<and> trace st' = trace st)"

text \<open>
  The children that a list of commands gives when each is started in the directory
  \<open>wd\<close> on the file system the one before has left, up to the first that does not
  return 0; with them, the file system the last one leaves.
\<close>

fun run_cmds :: "world \<Rightarrow> string list \<Rightarrow> node \<Rightarrow> string list list
                   \<Rightarrow> (string list \<times> call_result) list \<times> node" where
  "run_cmds w wd t [] = ([], t)"
| "run_cmds w wd t (cmd # cmds) =
     (let r = proc w cmd ((environ w)(''VERBOSE'' \<mapsto> ''1'')) wd t
      in if fst r = Returned 0
         then (case run_cmds w wd (snd r) cmds of (d, t') \<Rightarrow> ((cmd, fst r) # d, t'))
         else ([(cmd, fst r)], snd r))"

text \<open>
  A statement that starts the commands \<open>cmds\<close> through \<open>execute\<close>, one after the
  other, and does nothing else to the file system: its trace, the file system it leaves,
  and its outcome, are those of \<open>run_cmds\<close>; it returns when every child returned 0
  and raises \<open>Fail\<close> otherwise.
\<close>

definition steps :: "world \<Rightarrow> (state \<Rightarrow> unit result) \<Rightarrow> string list list \<Rightarrow> bool" where
  "steps w m cmds =
     (\<forall>st. trace (snd (m st)) = trace st @ fst (run_cmds w (cwd st) (fs st) cmds)
          \<and> fs (snd (m st)) = snd (run_cmds w (cwd st) (fs st) cmds)
          \<and> cwd (snd (m st)) = cwd st
          \<and> (fst (m st) = Inr ()
               \<longleftrightarrow> list_all (\<lambda>cr. snd cr = Returned 0) (fst (run_cmds w (cwd st) (fs st) cmds)))
          \<and> (\<forall>e. fst (m st) = Inl e \<longrightarrow> (\<exists>t. e = Fail t)))"

(*EXAMPLES*)

section \<open>Properties\<close>

subsection \<open>execute\<close>

lemma str_int_digit: "0 \<le> n \<Longrightarrow> n < 10 \<Longrightarrow> str_int n = [digit_char (nat n)]"
  by (simp add: str_int_def str_nat.simps)

text \<open>
  Claim C4. Whatever the command: exit status 0 returns normally; a positive status
  \<open>n\<close> raises \<open>Fail\<close> with the message \<open>Child returned: n\<close>; death by signal
  \<open>k\<close>, seen as status \<open>-k\<close>, raises \<open>Fail\<close> with
  \<open>Child was terminated by signal: k\<close>; a launch that the operating system refuses
  raises \<open>Fail\<close> with the error number and its text. The child ran once.
\<close>

theorem execute_status:
  assumes "proc w cmd ((environ w)(''VERBOSE'' \<mapsto> ''1'')) (cwd st) (fs st) = (r, t)"
  shows "(r = Returned 0 \<longrightarrow> fst (execute w cmd st) = Inr ())
       \<and> (\<forall>n. 0 < n \<and> r = Returned n \<longrightarrow>
             fst (execute w cmd st) = Inl (Fail (Some (''Child returned: '' @ str_int n))))
       \<and> (\<forall>k. 0 < k \<and> r = Returned (- k) \<longrightarrow>
             fst (execute w cmd st)
               = Inl (Fail (Some (''Child was terminated by signal: '' @ str_int k))))
       \<and> (\<forall>errno strerror. r = Launch_failed errno strerror \<longrightarrow>
             fst (execute w cmd st)
               = Inl (Fail (Some (''Execution failed: '' @ str_int errno @ '' / '' @ strerror))))
       \<and> trace (snd (execute w cmd st)) = trace st @ [(cmd, r)]"
  using assms by (auto simp: execute_def log_info_def Let_def split: call_result.splits)

theorem execute_status_witness:
  "fst (execute (ex_world (Returned 0)) [''make''] ex_state) = Inr ()
   \<and> fst (execute (ex_world (Returned 7)) [''make''] ex_state)
       = Inl (Fail (Some ''Child returned: 7''))
   \<and> fst (execute (ex_world (Returned (- 9))) [''make''] ex_state)
       = Inl (Fail (Some ''Child was terminated by signal: 9''))
   \<and> fst (execute (ex_world (Launch_failed 2 ''No such file or directory'')) [''make''] ex_state)
       = Inl (Fail (Some ''Execution failed: 2 / No such file or directory''))"
proof -
  have p: "\<And>r. proc (ex_world r) [''make''] ((environ (ex_world r))(''VERBOSE'' \<mapsto> ''1''))
             (cwd ex_state) (fs ex_state) = (r, ex_fs)"
    by (simp add: ex_world_def ex_state_def)
  have d: "str_int 7 = ''7''" "str_int 9 = ''9''" "str_int 2 = ''2''"
    by (simp_all add: str_int_digit digit_char_def)
  show ?thesis
    using execute_status [OF p [of "Returned 0"]] execute_status [OF p [of "Returned 7"]]
      execute_status [OF p [of "Returned (- 9)"]]
      execute_status [OF p [of "Launch_failed 2 ''No such file or directory''"]] d
    by simp
qed

subsection \<open>The configure command\<close>

text \<open>
  Claim C10. Whatever the options, \<open>get_build_flags\<close> returns a string that starts
  with \<open>-s USE_PTHREADS=0 \<close> and so is not empty; the test \<open>if flags\<close> of
  \<open>get_cmake_cmd\<close> therefore always passes, and the configure command always ends
  with the two compiler-flag arguments.
\<close>

theorem build_flags_always_set:
  "prefix ''-s USE_PTHREADS=0 '' (Builder_get_build_flags b)
   \<and> Builder_get_build_flags b \<noteq> []
   \<and> (\<exists>cmd. Builder_get_cmake_cmd b
         = cmd @ [''-DCMAKE_C_FLAGS='' @ quoted (Builder_get_build_flags b),
                  ''-DCMAKE_CXX_FLAGS='' @ quoted (Builder_get_build_flags b)])"
proof -
  have 1: "prefix ''-s USE_PTHREADS=0 '' (Builder_get_build_flags b)"
    by (simp add: Builder_get_build_flags_def Let_def)
  then have 2: "Builder_get_build_flags b \<noteq> []" by auto
  from 2 have 3: "\<exists>cmd. Builder_get_cmake_cmd b
         = cmd @ [''-DCMAKE_C_FLAGS='' @ quoted (Builder_get_build_flags b),
                  ''-DCMAKE_CXX_FLAGS='' @ quoted (Builder_get_build_flags b)]"
    by (simp add: Builder_get_cmake_cmd_def Let_def)
  from 1 2 3 show ?thesis by blast
qed

subsection \<open>Statements and the exceptions they raise\<close>

lemma seq_Nil [simp]: "seq [] st = (Inr (), st)"
  by (simp add: seq_def)

lemma seq_Cons:
  "seq (m # ms) st = (case m st of (Inl e, s) \<Rightarrow> (Inl e, s) | (Inr u, s) \<Rightarrow> seq ms s)"
  by (simp add: seq_def split: prod.splits sum.splits)

lemma raises_onlyI: "(\<And>st e. fst (m st) = Inl e \<Longrightarrow> P e) \<Longrightarrow> raises_only P m"
  by (simp add: raises_only_def)

lemma raises_onlyD: "raises_only P m \<Longrightarrow> fst (m st) = Inl e \<Longrightarrow> P e"
  by (simp add: raises_only_def)

lemma raises_only_for_each:
  assumes "\<And>x. x \<in> set xs \<Longrightarrow> raises_only P (f x)"
  shows "raises_only P (for_each f xs)"
proof (rule raises_onlyI)
  fix st e
  assume "fst (for_each f xs st) = Inl e"
  with assms show "P e"
  proof (induction xs arbitrary: st)
    case Nil
    then show ?case by simp
  next
    case (Cons x xs)
    obtain r s where fx: "f x st = (r, s)" by (cases "f x st")
    show ?case
    proof (cases r)
      case (Inl e')
      with fx Cons.prems(2) have "fst (f x st) = Inl e" by simp
      moreover have "raises_only P (f x)" using Cons.prems(1) by simp
      ultimately show ?thesis by (rule raises_onlyD [rotated])
    next
      case (Inr u)
      with fx Cons.prems(2) have "fst (for_each f xs s) = Inl e" by simp
      with Cons.IH Cons.prems(1) show ?thesis by simp
    qed
  qed
qed

lemma raises_only_seq:
  assumes "\<And>m. m \<in> set ms \<Longrightarrow> raises_only P m"
  shows "raises_only P (seq ms)"
  unfolding seq_def using assms by (rule raises_only_for_each)

lemma raises_only_andthen:
  assumes "raises_only P m" and "\<And>a. raises_only P (f a)"
  shows "raises_only P (andthen m f)"
proof (rule raises_onlyI)
  fix st e
  assume a: "fst (andthen m f st) = Inl e"
  obtain r s where ms: "m st = (r, s)" by (cases "m st")
  show "P e"
  proof (cases r)
    case (Inl e')
    with ms a have "fst (m st) = Inl e" by (simp add: andthen_def)
    with assms(1) show ?thesis by (rule raises_onlyD)
  next
    case (Inr x)
    with ms a have "fst (f x s) = Inl e" by (simp add: andthen_def)
    with assms(2) show ?thesis by (rule raises_onlyD)
  qed
qed

lemma raises_only_py_when: "raises_only P m \<Longrightarrow> raises_only P (py_when c m)"
  by (simp add: py_when_def raises_only_def done_unit_def)

lemma raises_only_info: "raises_only P (info msg args)"
  by (simp add: raises_only_def info_def)

lemma raises_only_banner: "raises_only P (banner msg args)"
  unfolding banner_def by (rule raises_only_seq) (auto simp: raises_only_info)

lemma raises_only_execute: "raises_only exit_zero_only (execute w cmd)"
  by (auto simp: raises_only_def execute_def Let_def split: call_result.splits if_splits)

lemma raises_only_rmtree: "raises_only exit_zero_only (rmtree p)"
  by (auto simp: raises_only_def rmtree_def os_error_def
        split: option.splits kind.splits sum.splits if_splits)

lemma raises_only_os_remove: "raises_only exit_zero_only (os_remove p)"
  by (auto simp: raises_only_def os_remove_def os_error_def
        split: option.splits kind.splits sum.splits if_splits)

lemma raises_only_chdir: "raises_only exit_zero_only (chdir p)"
  by (auto simp: raises_only_def chdir_def os_error_def
        split: option.splits kind.splits sum.splits prod.splits if_splits)

lemma fs_mkdir_exn: "fs_mkdir t p = Inl e \<Longrightarrow> \<exists>n s. e = OSError n s"
  by (auto simp: fs_mkdir_def os_error_def split: if_splits sum.splits option.splits)

lemma mkdir_step_exn: "mkdir_step t p = (Some e, t') \<Longrightarrow> \<exists>n s. e = OSError n s"
  by (auto simp: mkdir_step_def dest: fs_mkdir_exn split: sum.splits)

lemma fs_makedirs_exn: "fs_makedirs t r = (Some e, t') \<Longrightarrow> \<exists>n s. e = OSError n s"
proof (induction r arbitrary: t e t')
  case Nil
  then show ?case by (auto dest: mkdir_step_exn)
next
  case (Cons c r)
  then show ?case
    by (auto dest: mkdir_step_exn split: sum.splits prod.splits option.splits if_splits)
qed

lemma raises_only_makedirs: "raises_only exit_zero_only (makedirs p)"
  by (auto simp: raises_only_def makedirs_def dest: fs_makedirs_exn split: prod.splits option.splits)

lemma raises_only_rm_one: "raises_only exit_zero_only (rm_one d)"
proof (rule raises_onlyI)
  fix st e
  assume "fst (rm_one d st) = Inl e"
  then show "exit_zero_only e"
    using raises_onlyD [OF raises_only_rmtree] raises_onlyD [OF raises_only_os_remove]
    by (auto simp: rm_one_def Let_def split: if_splits)
qed

lemma raises_only_check_dir: "raises_only exit_zero_only (check_dir w d create clean)"
proof (rule raises_onlyI)
  fix st e
  assume a: "fst (check_dir w d create clean st) = Inl e"
  define s where "s = log_info ''Check dir %s (create: %s, clean: %s)''
        [PStr (abspath st d), PBool create, PBool clean] st"
  have 1: "raises_only exit_zero_only
             (andthen (for_each rm_one (glob_star w s (abspath st d))) (\<lambda>u st'. (Inr (abspath st d), st')))"
    by (intro raises_only_andthen raises_only_for_each raises_only_rm_one)
       (simp add: raises_only_def)
  have 2: "raises_only exit_zero_only
             (andthen (makedirs (abspath st d)) (\<lambda>u st'. (Inr (abspath st d), st')))"
    by (intro raises_only_andthen raises_only_makedirs) (simp add: raises_only_def)
  from a show "exit_zero_only e"
    using raises_onlyD [OF 1, of s e] raises_onlyD [OF 2, of s e]
    by (auto simp: check_dir_def Let_def s_def split: if_splits)
qed

lemma raises_only_check_file: "raises_only exit_zero_only (check_file d)"
  by (auto simp: raises_only_def check_file_def Let_def split: option.splits if_splits)

lemma raises_only_Builder_init: "raises_only exit_zero_only (Builder_init w opts)"
  unfolding Builder_init_def
  by (intro raises_only_andthen raises_only_check_dir)
     (auto simp: raises_only_def raises_only_check_dir [unfolded raises_only_def] split: option.splits)

lemma raises_only_report:
  "raises_only exit_zero_only (report_opencvjs b)"
  "raises_only exit_zero_only (report_test b)"
  "raises_only exit_zero_only (report_doc b)"
proof -
  show "raises_only exit_zero_only (report_opencvjs b)"
    unfolding report_opencvjs_def Let_def
    by (intro raises_only_andthen raises_only_check_file raises_only_py_when raises_only_info)
  show "raises_only exit_zero_only (report_test b)"
    unfolding report_test_def Let_def
    by (intro raises_only_andthen raises_only_check_file raises_only_py_when raises_only_info)
  have "\<And>p. raises_only exit_zero_only (andthen (check_file p) (\<lambda>found.
           py_when found
             (info ''OpenCV.js tutorials location: %s''
                [case p of None \<Rightarrow> PNone | Some p \<Rightarrow> PStr p])))"
    by (intro raises_only_andthen raises_only_check_file raises_only_py_when raises_only_info)
  then show "raises_only exit_zero_only (report_doc b)"
    by (simp add: raises_only_def report_doc_def Let_def)
qed

lemma raises_only_main_steps: "raises_only exit_zero_only (main_steps w args b)"
  unfolding main_steps_def Builder_clean_build_dir_def Builder_config_def
    Builder_build_opencvjs_def Builder_build_test_def Builder_build_doc_def
  apply (rule raises_only_seq)
  apply (simp only: set_simps insert_iff empty_iff)
  apply (elim disjE)
  apply (simp_all only:)
  apply (intro raises_only_chdir raises_only_py_when raises_only_seq raises_only_banner
         raises_only_for_each raises_only_rm_one raises_only_execute raises_only_report
        | simp only: set_simps insert_iff empty_iff | elim disjE | simp add: raises_only_def sys_exit_def)+
  done


lemma raises_only_main_resolved:
  "raises_only exit_zero_only (andthen (Builder_init w args) (\<lambda>builder. main_steps w args builder))"
  by (intro raises_only_andthen raises_only_Builder_init raises_only_main_steps)

lemma emscripten_dir_parse_args:
  "emscripten_dir (parse_args w st c)
     = (case arg_emscripten_dir c of None \<Rightarrow> environ w ''EMSCRIPTEN'' | Some d \<Rightarrow> Some d)"
  by (simp add: parse_args_def Let_def)

lemma exit_status_255: "exit_status r = 255 \<Longrightarrow> \<exists>n. r = Inl (SystemExit n) \<and> n \<noteq> 0"
  by (cases r rule: exit_status.cases) auto

text \<open>
  Claim C8. When neither \<open>--emscripten_dir\<close> nor the environment variable
  \<open>EMSCRIPTEN\<close> gives the toolchain directory, the script ends with
  \<open>sys.exit(-1)\<close>: no child process has run, and the file system and the working
  directory are untouched (no directory was checked or created). The exit status is
  255, and no other run ends with it: every other run ends with status 0 or 1.
\<close>

theorem unresolved_toolchain_exits_early:
  "(arg_emscripten_dir c = None \<and> environ w ''EMSCRIPTEN'' = None \<longrightarrow>
      fst (main w c st) = Inl (SystemExit (- 1))
      \<and> trace (snd (main w c st)) = trace st
      \<and> fs (snd (main w c st)) = fs st
      \<and> cwd (snd (main w c st)) = cwd st)
   \<and> (exit_status (fst (main w c st)) = 255
        \<longleftrightarrow> arg_emscripten_dir c = None \<and> environ w ''EMSCRIPTEN'' = None)"
proof -
  let ?args = "parse_args w st c"
  have unresolved: "fst (main w c st) = Inl (SystemExit (- 1))
      \<and> trace (snd (main w c st)) = trace st
      \<and> fs (snd (main w c st)) = fs st
      \<and> cwd (snd (main w c st)) = cwd st"
    if "arg_emscripten_dir c = None" "environ w ''EMSCRIPTEN'' = None"
  proof -
    from that have "emscripten_dir ?args = None"
      by (simp add: emscripten_dir_parse_args)
    then show ?thesis
      by (simp add: main_def Let_def seq_Cons info_def sys_exit_def log_info_def log_debug_def)
  qed
  have resolved: "exit_status (fst (main w c st)) \<noteq> 255"
    if "\<not> (arg_emscripten_dir c = None \<and> environ w ''EMSCRIPTEN'' = None)"
  proof
    assume a: "exit_status (fst (main w c st)) = 255"
    from that have r: "emscripten_dir ?args \<noteq> None"
      by (auto simp: emscripten_dir_parse_args split: option.splits)
    from exit_status_255 [OF a] obtain n where n: "fst (main w c st) = Inl (SystemExit n)" "n \<noteq> 0"
      by blast
    from n(1) r have "fst (andthen (Builder_init w ?args) (\<lambda>builder. main_steps w ?args builder)
                        (log_debug ''Args: %s'' [PArgs ?args] st)) = Inl (SystemExit n)"
      by (simp add: main_def Let_def)
    from raises_onlyD [OF raises_only_main_resolved this] n(2) show False by simp
  qed
  have "exit_status (Inl (SystemExit (- 1))) = 255" by simp
  with unresolved resolved show ?thesis by metis
qed

theorem unresolved_toolchain_exits_early_witness:
  "fst (main ((ex_world (Returned 0))\<lparr>environ := Map.empty\<rparr>) ex_cmdline ex_state) = Inl (SystemExit (- 1))
   \<and> trace (snd (main ((ex_world (Returned 0))\<lparr>environ := Map.empty\<rparr>) ex_cmdline ex_state)) = []
   \<and> fs (snd (main ((ex_world (Returned 0))\<lparr>environ := Map.empty\<rparr>) ex_cmdline ex_state)) = ex_fs
   \<and> exit_status (fst (main ((ex_world (Returned 0))\<lparr>environ := Map.empty\<rparr>) ex_cmdline ex_state)) = 255
   \<and> exit_status (fst (main (ex_world (Returned 0)) ex_cmdline ex_state)) \<noteq> 255"
proof -
  have a: "arg_emscripten_dir ex_cmdline = None"
    "environ ((ex_world (Returned 0))\<lparr>environ := Map.empty\<rparr>) ''EMSCRIPTEN'' = None"
    "environ (ex_world (Returned 0)) ''EMSCRIPTEN'' \<noteq> None"
    "trace ex_state = []" "fs ex_state = ex_fs"
    by (simp_all add: ex_cmdline_def ex_world_def ex_state_def)
  show ?thesis
    using unresolved_toolchain_exits_early
            [of ex_cmdline "(ex_world (Returned 0))\<lparr>environ := Map.empty\<rparr>" ex_state]
          unresolved_toolchain_exits_early [of ex_cmdline "ex_world (Returned 0)" ex_state] a
    by simp
qed

subsection \<open>The configure command, whole\<close>

lemma get_cmake_cmd_eq:
  "Builder_get_cmake_cmd b =
     [''cmake'', ''-DCMAKE_BUILD_TYPE=Release'',
      ''-DCMAKE_TOOLCHAIN_FILE='' @ quoted (Builder_get_toolchain_file b)]
     @ baseline_toggles
     @ [if build_doc (self_options b) then ''-DBUILD_DOCS=ON'' else ''-DBUILD_DOCS=OFF'']
     @ [''-DCMAKE_C_FLAGS='' @ quoted (Builder_get_build_flags b),
        ''-DCMAKE_CXX_FLAGS='' @ quoted (Builder_get_build_flags b)]"
proof -
  have "Builder_get_build_flags b \<noteq> []"
    by (simp add: Builder_get_build_flags_def Let_def)
  then show ?thesis by (simp add: Builder_get_cmake_cmd_def Let_def)
qed

lemma tests_off_in_baseline:
  "''-DBUILD_TESTS=OFF'' \<in> set baseline_toggles"
  "''-DBUILD_PERF_TESTS=OFF'' \<in> set baseline_toggles"
  "''-DBUILD_EXAMPLES=OFF'' \<in> set baseline_toggles"
  by (simp_all add: baseline_toggles_def)

text \<open>
  Claim C3 as stated fails: with \<open>--build_test\<close> given, the configure command
  still passes \<open>-DBUILD_TESTS=OFF\<close> and \<open>-DBUILD_PERF_TESTS=OFF\<close>.
\<close>

theorem cmake_cmd_disables_tests_with_build_test:
  "build_test (self_options (ex_builder True))
   \<and> ''-DBUILD_TESTS=OFF'' \<in> set (Builder_get_cmake_cmd (ex_builder True))
   \<and> ''-DBUILD_PERF_TESTS=OFF'' \<in> set (Builder_get_cmake_cmd (ex_builder True))"
  by (simp add: get_cmake_cmd_eq tests_off_in_baseline) (simp add: ex_builder_def)

text \<open>
  Claim C3, amended. The configure command is \<open>cmake\<close>, the build type, the
  toolchain-file flag, the fixed toggles, the documentation toggle and the two
  compiler-flag arguments, in this order. The toggles that disable tests, performance
  tests and examples are always among them, whether or not \<open>--build_test\<close> is
  given; the documentation toggle is \<open>ON\<close> exactly when \<open>--build_doc\<close> is
  given. The command is a function of the toolchain directory and of the options
  \<open>build_doc\<close>, \<open>build_wasm\<close>, \<open>disable_wasm\<close> and
  \<open>enable_exception\<close> alone.
\<close>

theorem cmake_cmd_shape:
  "Builder_get_cmake_cmd b =
     [''cmake'', ''-DCMAKE_BUILD_TYPE=Release'',
      ''-DCMAKE_TOOLCHAIN_FILE='' @ quoted (Builder_get_toolchain_file b)]
     @ baseline_toggles
     @ [if build_doc (self_options b) then ''-DBUILD_DOCS=ON'' else ''-DBUILD_DOCS=OFF'']
     @ [''-DCMAKE_C_FLAGS='' @ quoted (Builder_get_build_flags b),
        ''-DCMAKE_CXX_FLAGS='' @ quoted (Builder_get_build_flags b)]
   \<and> ''-DBUILD_TESTS=OFF'' \<in> set (Builder_get_cmake_cmd b)
   \<and> ''-DBUILD_PERF_TESTS=OFF'' \<in> set (Builder_get_cmake_cmd b)
   \<and> ''-DBUILD_EXAMPLES=OFF'' \<in> set (Builder_get_cmake_cmd b)
   \<and> (''-DBUILD_DOCS=ON'' \<in> set (Builder_get_cmake_cmd b) \<longleftrightarrow> build_doc (self_options b))
   \<and> (''-DBUILD_DOCS=OFF'' \<in> set (Builder_get_cmake_cmd b) \<longleftrightarrow> \<not> build_doc (self_options b))
   \<and> (\<forall>b'. self_emscripten_dir b' = self_emscripten_dir b
          \<and> build_doc (self_options b') = build_doc (self_options b)
          \<and> build_wasm (self_options b') = build_wasm (self_options b)
          \<and> disable_wasm (self_options b') = disable_wasm (self_options b)
          \<and> enable_exception (self_options b') = enable_exception (self_options b)
        \<longrightarrow> Builder_get_cmake_cmd b' = Builder_get_cmake_cmd b)"
proof -
  have docs_on: "''-DBUILD_DOCS=ON'' \<notin> set baseline_toggles"
    and docs_off: "''-DBUILD_DOCS=OFF'' \<notin> set baseline_toggles"
    by (simp_all add: baseline_toggles_def)
  have q: "\<And>s x. ''-DBUILD_DOCS=ON'' \<noteq> ''-DCMAKE_TOOLCHAIN_FILE='' @ s"
     "\<And>s x. ''-DBUILD_DOCS=OFF'' \<noteq> ''-DCMAKE_TOOLCHAIN_FILE='' @ s"
     "\<And>s x. ''-DBUILD_DOCS=ON'' \<noteq> ''-DCMAKE_C_FLAGS='' @ s"
     "\<And>s x. ''-DBUILD_DOCS=OFF'' \<noteq> ''-DCMAKE_C_FLAGS='' @ s"
     "\<And>s x. ''-DBUILD_DOCS=ON'' \<noteq> ''-DCMAKE_CXX_FLAGS='' @ s"
     "\<And>s x. ''-DBUILD_DOCS=OFF'' \<noteq> ''-DCMAKE_CXX_FLAGS='' @ s"
    by simp_all
  have on: "''-DBUILD_DOCS=ON'' \<in> set (Builder_get_cmake_cmd b) \<longleftrightarrow> build_doc (self_options b)"
    using docs_on q by (simp add: get_cmake_cmd_eq)
  have off: "''-DBUILD_DOCS=OFF'' \<in> set (Builder_get_cmake_cmd b) \<longleftrightarrow> \<not> build_doc (self_options b)"
    using docs_off q by (simp add: get_cmake_cmd_eq)
  have det: "Builder_get_cmake_cmd b' = Builder_get_cmake_cmd b"
    if "self_emscripten_dir b' = self_emscripten_dir b
          \<and> build_doc (self_options b') = build_doc (self_options b)
          \<and> build_wasm (self_options b') = build_wasm (self_options b)
          \<and> disable_wasm (self_options b') = disable_wasm (self_options b)
          \<and> enable_exception (self_options b') = enable_exception (self_options b)" for b'
    using that
    by (auto simp add: get_cmake_cmd_eq Builder_get_toolchain_file_def Builder_get_build_flags_def
          Let_def)
  show ?thesis
    using on off det get_cmake_cmd_eq [of b] tests_off_in_baseline by simp
qed

theorem cmake_cmd_shape_witness:
  "''-DBUILD_DOCS=OFF'' \<in> set (Builder_get_cmake_cmd (ex_builder False))
   \<and> ''-DBUILD_TESTS=OFF'' \<in> set (Builder_get_cmake_cmd (ex_builder False))
   \<and> Builder_get_cmake_cmd (ex_builder True) = Builder_get_cmake_cmd (ex_builder False)"
proof -
  have "\<not> build_doc (self_options (ex_builder False))"
    "self_emscripten_dir (ex_builder True) = self_emscripten_dir (ex_builder False)
          \<and> build_doc (self_options (ex_builder True)) = build_doc (self_options (ex_builder False))
          \<and> build_wasm (self_options (ex_builder True)) = build_wasm (self_options (ex_builder False))
          \<and> disable_wasm (self_options (ex_builder True)) = disable_wasm (self_options (ex_builder False))
          \<and> enable_exception (self_options (ex_builder True)) = enable_exception (self_options (ex_builder False))"
    by (simp_all add: ex_builder_def)
  then show ?thesis
    using cmake_cmd_shape [of "ex_builder False"] by blast
qed

subsection \<open>Paths\<close>

lemma split_sep_not_Nil [simp]: "split_sep s \<noteq> []"
  by (induction s) (auto split: list.splits)

lemma split_sep_append:
  "split_sep (a @ CHR ''/'' # b) = split_sep a @ split_sep b"
proof (induction a)
  case Nil
  show ?case by simp
next
  case (Cons c a)
  obtain w ws where "split_sep a = w # ws" by (cases "split_sep a") simp_all
  with Cons show ?case by simp
qed


lemma split_sep_no_slash: "CHR ''/'' \<notin> set n \<Longrightarrow> split_sep n = [n]"
  by (induction n) auto

lemma norm_step_empty [simp]: "norm_step k acc [] = acc"
  by (simp add: norm_step_def)








lemma getcwd_isabs: "isabs (getcwd st)"
  by (simp add: getcwd_def isabs_def startswith_def)

lemma abspath_relative:
  assumes "\<not> isabs d"
  shows "abspath st (path_join (getcwd st) d) = abspath st d"
proof -
  from assms have "path_join (getcwd st) d = getcwd st @ d \<or> path_join (getcwd st) d = getcwd st @ CHR ''/'' # d"
    by (auto simp: path_join_def isabs_def)
  then have "isabs (path_join (getcwd st) d)"
    by (auto simp: getcwd_def isabs_def startswith_def)
  with assms show ?thesis by (simp add: abspath_def)
qed


subsection \<open>Names relative to the working directory\<close>




lemma split_sep_sep_join:
  "cs \<noteq> [] \<Longrightarrow> list_all valid_name cs \<Longrightarrow> split_sep (sep_join cs) = cs"
proof (induction cs rule: sep_join.induct)
  case 1
  then show ?case by simp
next
  case (2 c)
  then show ?case by (simp add: split_sep_no_slash valid_name_def)
next
  case (3 c v va)
  then show ?case by (simp add: split_sep_append split_sep_no_slash valid_name_def)
qed







subsection \<open>Entries of the file system\<close>

lemma fs_kind_Nil [simp]: "fs_kind t [] = Some (kind_of t)"
  by (simp add: fs_kind_def)

lemma fs_kind_Dir_Cons:
  "fs_kind (Dir es) (c # cs) = (case map_of es c of None \<Rightarrow> None | Some n \<Rightarrow> fs_kind n cs)"
  by (simp add: fs_kind_def split: option.splits)

lemma fs_lookup_leaf_Cons: "\<not> is_Dir n \<Longrightarrow> fs_lookup n (c # cs) = None"
  by (cases n) simp_all

lemma fs_kind_leaf_Cons: "\<not> is_Dir n \<Longrightarrow> fs_kind n (c # cs) = None"
  by (simp add: fs_kind_def fs_lookup_leaf_Cons)

lemma kind_of_Directory [simp]: "kind_of n = Directory \<longleftrightarrow> is_Dir n"
  by (cases n) simp_all

lemma fs_lookup_append:
  "fs_lookup t (a @ b) = (case fs_lookup t a of None \<Rightarrow> None | Some n \<Rightarrow> fs_lookup n b)"
proof (induction a arbitrary: t)
  case Nil
  show ?case by simp
next
  case (Cons c cs)
  show ?case
  proof (cases t)
    case (Dir es)
    with Cons show ?thesis by (simp split: option.splits)
  qed simp_all
qed

lemma fs_kind_append:
  "fs_kind t (a @ b) = (case fs_lookup t a of None \<Rightarrow> None | Some n \<Rightarrow> fs_kind n b)"
  by (simp add: fs_kind_def fs_lookup_append split: option.splits)

lemma fs_kind_below_dir:
  assumes "fs_kind t (a @ c # cs) = Some k"
  shows "fs_kind t a = Some Directory"
proof -
  from assms obtain n where n: "fs_lookup t a = Some n" "fs_kind n (c # cs) = Some k"
    by (auto simp: fs_kind_append split: option.splits)
  from n(2) have "is_Dir n" using fs_kind_leaf_Cons [of n c cs] by auto
  with n(1) show ?thesis by (simp add: fs_kind_def)
qed


lemma fs_kind_not_dir_below:
  assumes "fs_kind t a = Some k" "k \<noteq> Directory"
  shows "fs_kind t (a @ c # cs) = None"
proof (rule ccontr)
  assume "fs_kind t (a @ c # cs) \<noteq> None"
  then obtain k' where "fs_kind t (a @ c # cs) = Some k'" by auto
  from fs_kind_below_dir [OF this] assms show False by simp
qed

subsection \<open>Path resolution\<close>

subsection \<open>Resolution of paths in the tree\<close>

lemma walk_skip:
  "fs_kind t canon = Some Directory \<Longrightarrow> c = [] \<or> c = ''.''
     \<Longrightarrow> walk f t canon (c # cs) = walk f t canon cs"
  by auto

lemma walk_up:
  "fs_kind t canon = Some Directory \<Longrightarrow> c = ''..''
     \<Longrightarrow> walk f t canon (c # cs) = walk f t (butlast canon) cs"
  by auto

lemma walk_name:
  "fs_kind t canon = Some Directory \<Longrightarrow> c \<noteq> [] \<Longrightarrow> c \<noteq> ''.'' \<Longrightarrow> c \<noteq> ''..''
     \<Longrightarrow> fs_kind t (canon @ [c]) = Some k \<Longrightarrow> \<forall>target. k \<noteq> Symlink target
     \<Longrightarrow> walk f t canon (c # cs) = walk f t (canon @ [c]) cs"
  by (cases k) auto

lemma walk_link:
  "fs_kind t canon = Some Directory \<Longrightarrow> c \<noteq> [] \<Longrightarrow> c \<noteq> ''.'' \<Longrightarrow> c \<noteq> ''..''
     \<Longrightarrow> fs_kind t (canon @ [c]) = Some (Symlink target) \<Longrightarrow> f \<noteq> 0 \<Longrightarrow> target \<noteq> []
     \<Longrightarrow> walk f t canon (c # cs)
           = walk (f - 1) t (if isabs target then [] else canon) (split_sep target @ cs)"
  by auto

lemmas walk_Cons = walk.simps(2)

declare walk.simps(2) [simp del]

text \<open>Induction along a resolution: one case for each way a name is read, one for failure.\<close>

lemma walk_induct [case_names Nil Skip Up Name Link Stop]:
  assumes "\<And>f t canon. P f t canon []"
    and "\<And>f t canon c cs. fs_kind t canon = Some Directory \<Longrightarrow> c = [] \<or> c = ''.''
           \<Longrightarrow> P f t canon cs \<Longrightarrow> P f t canon (c # cs)"
    and "\<And>f t canon c cs. fs_kind t canon = Some Directory \<Longrightarrow> c = ''..''
           \<Longrightarrow> P f t (butlast canon) cs \<Longrightarrow> P f t canon (c # cs)"
    and "\<And>f t canon c cs k. fs_kind t canon = Some Directory \<Longrightarrow> c \<noteq> [] \<Longrightarrow> c \<noteq> ''.''
           \<Longrightarrow> c \<noteq> ''..'' \<Longrightarrow> fs_kind t (canon @ [c]) = Some k
           \<Longrightarrow> \<forall>target. k \<noteq> Symlink target
           \<Longrightarrow> P f t (canon @ [c]) cs \<Longrightarrow> P f t canon (c # cs)"
    and "\<And>f t canon c cs target. fs_kind t canon = Some Directory \<Longrightarrow> c \<noteq> [] \<Longrightarrow> c \<noteq> ''.''
           \<Longrightarrow> c \<noteq> ''..'' \<Longrightarrow> fs_kind t (canon @ [c]) = Some (Symlink target)
           \<Longrightarrow> f \<noteq> 0 \<Longrightarrow> target \<noteq> []
           \<Longrightarrow> P (f - 1) t (if isabs target then [] else canon) (split_sep target @ cs)
           \<Longrightarrow> P f t canon (c # cs)"
    and "\<And>f t canon c cs e. (\<And>ys. walk f t canon (c # cs @ ys) = Inl e)
           \<Longrightarrow> P f t canon (c # cs)"
  shows "P f t canon ps"
proof (induction f t canon ps rule: walk.induct)
  case (1 fuel t canon)
  show ?case by (rule assms(1))
next
  case (2 fuel t canon c cs)
  show ?case
  proof (cases "fs_kind t canon = Some Directory")
    case False
    then have "walk fuel t canon (c # cs @ ys) = Inl 20" for ys
      by (auto simp: walk_Cons split: option.splits kind.splits)
    then show ?thesis by (rule assms(6))
  next
    case d: True
    show ?thesis
    proof (cases "c = [] \<or> c = ''.''")
      case True
      from "2.IH"(1) [OF d refl True] show ?thesis by (rule assms(2) [OF d True])
    next
      case nskip: False
      show ?thesis
      proof (cases "c = ''..''")
        case True
        from "2.IH"(2) [OF d refl nskip True] show ?thesis by (rule assms(3) [OF d True])
      next
        case nup: False
        from nskip have c: "c \<noteq> []" "c \<noteq> ''.''" by simp_all
        show ?thesis
        proof (cases "fs_kind t (canon @ [c])")
          case None
          with d nskip nup have "walk fuel t canon (c # cs @ ys) = Inl 2" for ys
            by (simp add: walk_Cons)
          then show ?thesis by (rule assms(6))
        next
          case (Some k)
          show ?thesis
          proof (cases k)
            case Regular
            from "2.IH"(3) [OF d refl nskip nup Some Regular] Regular
            show ?thesis by (intro assms(4) [OF d c nup Some]) simp_all
          next
            case Directory
            from "2.IH"(4) [OF d refl nskip nup Some Directory] Directory
            show ?thesis by (intro assms(4) [OF d c nup Some]) simp_all
          next
            case Other
            from "2.IH"(5) [OF d refl nskip nup Some Other] Other
            show ?thesis by (intro assms(4) [OF d c nup Some]) simp_all
          next
            case (Symlink target)
            show ?thesis
            proof (cases "fuel = 0")
              case True
              with d nskip nup Some Symlink have "walk fuel t canon (c # cs @ ys) = Inl 40" for ys
                by (simp add: walk_Cons)
              then show ?thesis by (rule assms(6))
            next
              case f: False
              show ?thesis
              proof (cases "target = []")
                case True
                with d nskip nup Some Symlink f have "walk fuel t canon (c # cs @ ys) = Inl 2" for ys
                  by (simp add: walk_Cons)
                then show ?thesis by (rule assms(6))
              next
                case False
                from Some Symlink have s: "fs_kind t (canon @ [c]) = Some (Symlink target)" by simp
                from "2.IH"(6) [OF d refl nskip nup Some Symlink f False]
                show ?thesis by (rule assms(5) [OF d c nup s f False])
              qed
            qed
          qed
        qed
      qed
    qed
  qed
qed



lemma split_sep_pieces: "p \<in> set (split_sep s) \<Longrightarrow> CHR ''/'' \<notin> set p"
proof (induction s arbitrary: p)
  case Nil
  then show ?case by simp
next
  case (Cons c s)
  obtain w ws where w: "split_sep s = w # ws" by (cases "split_sep s") simp_all
  with Cons show ?case by (auto split: if_splits)
qed


lemma walk_append:
  "walk f t canon (xs @ ys)
     = (case walk f t canon xs of Inl e \<Rightarrow> Inl e | Inr (f', c') \<Rightarrow> walk f' t c' ys)"
proof (induction f t canon xs rule: walk_induct)
  case (Nil f t canon)
  show ?case by simp
next
  case (Skip f t canon c cs)
  then show ?case by (simp add: walk_skip)
next
  case (Up f t canon c cs)
  then show ?case by (simp add: walk_up)
next
  case (Name f t canon c cs k)
  then show ?case by (simp add: walk_name)
next
  case (Link f t canon c cs target)
  then show ?case by (simp add: walk_link)
next
  case (Stop f t canon c cs e)
  from Stop [of ys] Stop [of "[]"] show ?case by simp
qed

text \<open>Resolution reads the tree through \<open>fs_kind\<close> only: entries added do not change it.\<close>

lemma walk_extends:
  assumes "walk f t canon ps = Inr r"
    and "\<forall>q k. fs_kind t q = Some k \<longrightarrow> fs_kind t' q = Some k"
  shows "walk f t' canon ps = Inr r"
  using assms
proof (induction f t canon ps rule: walk_induct)
  case (Nil f t canon)
  then show ?case by simp
next
  case (Skip f t canon c cs)
  from Skip.prems(2) Skip.hyps(1) have d: "fs_kind t' canon = Some Directory" by blast
  from Skip.prems have "walk f t canon cs = Inr r" by (simp add: walk_skip [OF Skip.hyps])
  from Skip.IH [OF this Skip.prems(2)] show ?case
    by (simp add: walk_skip [OF d Skip.hyps(2)])
next
  case (Up f t canon c cs)
  from Up.prems(2) Up.hyps(1) have d: "fs_kind t' canon = Some Directory" by blast
  from Up.prems have "walk f t (butlast canon) cs = Inr r" by (simp add: walk_up [OF Up.hyps])
  from Up.IH [OF this Up.prems(2)] show ?case
    by (simp add: walk_up [OF d Up.hyps(2)])
next
  case (Name f t canon c cs k)
  from Name.prems(2) Name.hyps(1) have d: "fs_kind t' canon = Some Directory" by blast
  from Name.prems(2) Name.hyps(5) have e: "fs_kind t' (canon @ [c]) = Some k" by blast
  from Name.prems have "walk f t (canon @ [c]) cs = Inr r"
    by (simp add: walk_name [OF Name.hyps])
  from Name.IH [OF this Name.prems(2)] show ?case
    by (simp add: walk_name [OF d Name.hyps(2-4) e Name.hyps(6)])
next
  case (Link f t canon c cs target)
  from Link.prems(2) Link.hyps(1) have d: "fs_kind t' canon = Some Directory" by blast
  from Link.prems(2) Link.hyps(5) have e: "fs_kind t' (canon @ [c]) = Some (Symlink target)"
    by blast
  from Link.prems have
    "walk (f - 1) t (if isabs target then [] else canon) (split_sep target @ cs) = Inr r"
    by (simp add: walk_link [OF Link.hyps])
  from Link.IH [OF this Link.prems(2)] show ?case
    by (simp add: walk_link [OF d Link.hyps(2-4) e Link.hyps(6,7)])
next
  case (Stop f t canon c cs e)
  from Stop(1) [of "[]"] Stop(2) show ?case by simp
qed

subsection \<open>Adding and removing entries\<close>



lemma map_of_insert_at:
  "map_of (map (\<lambda>e. if fst e = c then (fst e, fs_insert (snd e) cs x) else e) es) d
     = (if d = c then map_option (\<lambda>n. fs_insert n cs x) (map_of es c) else map_of es d)"
  by (induction es) auto


lemma fs_insert_Dir_Cons:
  "cs \<noteq> [] \<Longrightarrow> fs_insert (Dir es) (c # cs) x
     = Dir (map (\<lambda>e. if fst e = c then (fst e, fs_insert (snd e) cs x) else e) es)"
  by (cases cs) simp_all



lemma fs_kind_insert:
  assumes "fs_kind t pc = Some Directory" and "fs_kind t (pc @ [c]) = None"
  shows "fs_kind (fs_insert t (pc @ [c]) (Dir [])) q
           = (if q = pc @ [c] then Some Directory else fs_kind t q)"
  using assms
proof (induction pc arbitrary: t q)
  case Nil
  then obtain es where t: "t = Dir es" by (cases t) simp_all
  with Nil.prems(2) have n: "map_of es c = None"
    by (simp add: fs_kind_Dir_Cons split: option.splits)
  show ?case
  proof (cases q)
    case Nil
    with t show ?thesis by simp
  next
    case (Cons d ds)
    with t n show ?thesis
      by (cases ds) (auto simp: fs_kind_Dir_Cons map_add_def fs_kind_leaf_Cons split: option.splits)
  qed
next
  case (Cons a pc)
  from Cons.prems(1) have "is_Dir t"
    by (cases t) (simp_all add: fs_kind_leaf_Cons)
  then obtain es where t: "t = Dir es" by (cases t) simp_all
  with Cons.prems(1) obtain n where n: "map_of es a = Some n" "fs_kind n pc = Some Directory"
    by (auto simp: fs_kind_Dir_Cons split: option.splits)
  with t Cons.prems(2) have a: "fs_kind n (pc @ [c]) = None"
    by (simp add: fs_kind_Dir_Cons)
  show ?case
  proof (cases q)
    case Nil
    with t show ?thesis by (simp add: fs_insert_Dir_Cons)
  next
    case q: (Cons d ds)
    note ih = Cons.IH [OF n(2) a]
    from t q n(1) show ?thesis
      by (simp add: fs_insert_Dir_Cons fs_kind_Dir_Cons map_of_insert_at ih)
  qed
qed

lemma fs_kind_insert_keeps:
  assumes "fs_kind t pc = Some Directory" and "fs_kind t (pc @ [c]) = None"
  shows "\<forall>q k. fs_kind t q = Some k \<longrightarrow> fs_kind (fs_insert t (pc @ [c]) (Dir [])) q = Some k"
  using assms by (auto simp: fs_kind_insert)

subsection \<open>The shape of an absolute path\<close>

lemma foldl_norm_step_names:
  assumes "0 < k" and "list_all valid_name acc" and "\<forall>p\<in>set ps. CHR ''/'' \<notin> set p"
  shows "list_all valid_name (foldl (norm_step k) acc ps)"
  using assms(2,3)
proof (induction ps arbitrary: acc)
  case Nil
  then show ?case by simp
next
  case (Cons p ps)
  have "list_all valid_name (norm_step k acc p)"
  proof (cases "p = [] \<or> p = ''.''")
    case True
    with Cons.prems(1) show ?thesis by (auto simp: norm_step_def)
  next
    case n: False
    show ?thesis
    proof (cases "p = ''..''")
      case True
      from Cons.prems(1) have b: "list_all valid_name (butlast acc)"
        by (auto simp: list_all_iff dest: in_set_butlastD)
      have "acc \<noteq> [] \<Longrightarrow> last acc \<noteq> ''..''"
        using Cons.prems(1) by (auto simp: list_all_iff valid_name_def dest: last_in_set)
      with True assms(1) Cons.prems(1) b show ?thesis
        by (auto simp: norm_step_def)
    next
      case False
      with n Cons.prems(2) have "valid_name p" by (simp add: valid_name_def)
      with n False Cons.prems(1) show ?thesis by (simp add: norm_step_def)
    qed
  qed
  from Cons.IH [OF this] Cons.prems(2) show ?case by simp
qed

lemma split_sep_slashes:
  "split_sep (replicate k CHR ''/'' @ s) = replicate k [] @ split_sep s"
  by (induction k) simp_all

lemma path_comps_slashes:
  assumes "list_all valid_name cs"
  shows "path_comps (replicate k CHR ''/'' @ sep_join cs) = cs"
proof -
  have f: "filter (\<lambda>c. c \<noteq> []) cs = cs"
    using assms by (induction cs) (auto simp: valid_name_def)
  show ?thesis
  proof (cases "cs = []")
    case True
    have "split_sep (replicate k CHR ''/'') = replicate k [] @ [[]]"
      using split_sep_slashes [of k "[]"] by simp
    with True show ?thesis by (simp add: path_comps_def)
  next
    case False
    with assms f show ?thesis
      by (simp add: path_comps_def split_sep_slashes split_sep_sep_join)
  qed
qed

lemma initial_slashes_isabs: "isabs s \<Longrightarrow> initial_slashes s = 1 \<or> initial_slashes s = 2"
  by (simp add: isabs_def initial_slashes_def)

lemma normpath_isabs:
  assumes "isabs s"
  shows "normpath s = replicate (initial_slashes s) CHR ''/''
                        @ sep_join (foldl (norm_step (initial_slashes s)) [] (split_sep s))"
proof -
  from assms have "s \<noteq> []" by (auto simp: isabs_def startswith_def)
  with initial_slashes_isabs [OF assms] show ?thesis
    by (auto simp: normpath_def Let_def)
qed

text \<open>The text \<open>abspath\<close> joins and normalises.\<close>

lemma abspath_isabs: "isabs (if \<not> isabs d then path_join (getcwd st) d else d)"
proof (cases "isabs d")
  case True
  then show ?thesis by simp
next
  case False
  then have "path_join (getcwd st) d = getcwd st @ d
             \<or> path_join (getcwd st) d = getcwd st @ CHR ''/'' # d"
    by (auto simp: path_join_def isabs_def)
  then have "isabs (path_join (getcwd st) d)"
    by (auto simp: getcwd_def isabs_def startswith_def)
  with False show ?thesis by simp
qed

lemma abspath_shape:
  "\<exists>k cs. (k = 1 \<or> k = 2) \<and> list_all valid_name cs
      \<and> abspath st d = replicate k CHR ''/'' @ sep_join cs
      \<and> resolve st (abspath st d) = cs"
proof -
  let ?s = "if \<not> isabs d then path_join (getcwd st) d else d"
  let ?k = "initial_slashes ?s"
  let ?cs = "foldl (norm_step ?k) [] (split_sep ?s)"
  have a: "isabs ?s" by (rule abspath_isabs)
  from initial_slashes_isabs [OF a] have k: "?k = 1 \<or> ?k = 2" .
  then have "0 < ?k" by auto
  from foldl_norm_step_names [OF this, of "[]" "split_sep ?s"] split_sep_pieces
  have v: "list_all valid_name ?cs" by auto
  have n: "abspath st d = replicate ?k CHR ''/'' @ sep_join ?cs"
    unfolding abspath_def by (rule normpath_isabs [OF a])
  from k have "isabs (replicate ?k CHR ''/'' @ sep_join ?cs)"
    by (auto simp: isabs_def startswith_def numeral_2_eq_2)
  then have "resolve st (abspath st d) = ?cs"
    by (simp add: n resolve_def path_comps_slashes [OF v])
  with k v n show ?thesis by blast
qed

subsection \<open>check\_dir\<close>

lemma log_info_simps [simp]:
  "fs (log_info m a st) = fs st" "cwd (log_info m a st) = cwd st"
  "trace (log_info m a st) = trace st"
  "resolve (log_info m a st) p = resolve st p"
  "abspath (log_info m a st) p = abspath st p"
  "path_exists (log_info m a st) p = path_exists st p"
  "isdir (log_info m a st) p = isdir st p"
  "isfile (log_info m a st) p = isfile st p"
  by (simp_all add: log_info_def resolve_def abspath_def getcwd_def path_exists_def isdir_def
        isfile_def)

lemma glob_star_log_info [simp]: "glob_star w (log_info m a st) p = glob_star w st p"
  by (simp add: glob_star_def split: sum.splits prod.splits)









subsection \<open>check\_dir on a path that does not exist\<close>

lemma with_fs_simps [simp]:
  "resolve (st\<lparr>fs := t\<rparr>) p = resolve st p"
  "abspath (st\<lparr>fs := t\<rparr>) p = abspath st p"
  by (simp_all add: resolve_def abspath_def getcwd_def)







lemma check_dir_absent_create:
  assumes "\<not> path_exists st (abspath st d)"
  shows "check_dir w d True clean st
           = (case fs_makedirs (fs st) (rev (resolve st (abspath st d))) of
                (Some e, t) \<Rightarrow>
                  (Inl e, (log_info ''Check dir %s (create: %s, clean: %s)''
                             [PStr (abspath st d), PBool True, PBool clean] st)\<lparr>fs := t\<rparr>)
              | (None, t) \<Rightarrow>
                  (Inr (abspath st d),
                   (log_info ''Check dir %s (create: %s, clean: %s)''
                      [PStr (abspath st d), PBool True, PBool clean] st)\<lparr>fs := t\<rparr>))"
  using assms
  by (simp add: check_dir_def Let_def andthen_def makedirs_def split: prod.splits option.splits)




subsection \<open>rm\_one and clean\_build\_dir\<close>









subsection \<open>Statements and the child processes they start\<close>

lemma quietI:
  "(\<And>st. \<exists>st'. m st = (Inr (), st') \<and> fs st' = fs st \<and> cwd st' = cwd st \<and> trace st' = trace st)
     \<Longrightarrow> quiet m"
  by (simp add: quiet_def)

lemma quietD:
  "quiet m \<Longrightarrow> \<exists>st'. m st = (Inr (), st') \<and> fs st' = fs st \<and> cwd st' = cwd st \<and> trace st' = trace st"
  by (simp add: quiet_def)

lemma quiet_done_unit: "quiet done_unit"
  by (simp add: quiet_def done_unit_def)

lemma quiet_info: "quiet (info msg args)"
  by (simp add: quiet_def info_def)

lemma quiet_seq:
  assumes "\<And>m. m \<in> set ms \<Longrightarrow> quiet m"
  shows "quiet (seq ms)"
  using assms
proof (induction ms)
  case Nil
  show ?case by (simp add: quiet_def)
next
  case (Cons m ms)
  from Cons.prems have m: "quiet m" and ms: "quiet (seq ms)"
    by (simp_all add: Cons.IH)
  show ?case
  proof (rule quietI)
    fix st
    from quietD [OF m, of st] obtain s1 where
      s1: "m st = (Inr (), s1)" "fs s1 = fs st" "cwd s1 = cwd st" "trace s1 = trace st"
      by blast
    from quietD [OF ms, of s1] obtain s2 where
      s2: "seq ms s1 = (Inr (), s2)" "fs s2 = fs s1" "cwd s2 = cwd s1" "trace s2 = trace s1"
      by blast
    from s1 s2 show "\<exists>st'. seq (m # ms) st = (Inr (), st')
                       \<and> fs st' = fs st \<and> cwd st' = cwd st \<and> trace st' = trace st"
      by (simp add: seq_Cons)
  qed
qed

lemma quiet_banner: "quiet (banner msg args)"
  unfolding banner_def by (rule quiet_seq) (auto simp: quiet_info)

lemma quiet_py_when: "quiet m \<Longrightarrow> quiet (py_when c m)"
  by (simp add: py_when_def quiet_done_unit)

lemma check_file_Some:
  "\<exists>found. check_file (Some p) st = (Inr found, st)"
  by (auto simp: check_file_def Let_def)

lemma quiet_report_opencvjs: "quiet (report_opencvjs b)"
proof (rule quietI)
  fix st
  let ?p = "path_join_all (self_build_dir b) [''bin'', ''opencv.js'']"
  from check_file_Some [of ?p st] obtain found where "check_file (Some ?p) st = (Inr found, st)"
    by blast
  then show "\<exists>st'. report_opencvjs b st = (Inr (), st')
               \<and> fs st' = fs st \<and> cwd st' = cwd st \<and> trace st' = trace st"
    by (simp add: report_opencvjs_def Let_def andthen_def py_when_def info_def done_unit_def)
qed

lemma quiet_report_test: "quiet (report_test b)"
proof (rule quietI)
  fix st
  let ?p = "path_join_all (self_build_dir b) [''bin'', ''tests.html'']"
  from check_file_Some [of ?p st] obtain found where "check_file (Some ?p) st = (Inr found, st)"
    by blast
  then show "\<exists>st'. report_test b st = (Inr (), st')
               \<and> fs st' = fs st \<and> cwd st' = cwd st \<and> trace st' = trace st"
    by (simp add: report_test_def Let_def andthen_def py_when_def info_def done_unit_def)
qed

lemma run_cmds_append:
  "run_cmds w wd t (a @ b)
     = (if list_all (\<lambda>cr. snd cr = Returned 0) (fst (run_cmds w wd t a))
        then (fst (run_cmds w wd t a) @ fst (run_cmds w wd (snd (run_cmds w wd t a)) b),
              snd (run_cmds w wd (snd (run_cmds w wd t a)) b))
        else run_cmds w wd t a)"
  by (induction a arbitrary: t) (simp_all add: Let_def split_beta)

lemma run_cmds_all:
  "list_all (\<lambda>cr. snd cr = Returned 0) (fst (run_cmds w wd t cmds))
     \<Longrightarrow> map fst (fst (run_cmds w wd t cmds)) = cmds"
  by (induction cmds arbitrary: t) (auto simp: Let_def split_beta split: if_splits)

lemma run_cmds_prefix: "prefix (map fst (fst (run_cmds w wd t cmds))) cmds"
  by (induction cmds arbitrary: t) (auto simp: Let_def split_beta)

lemma stepsI:
  assumes "\<And>st. trace (snd (m st)) = trace st @ fst (run_cmds w (cwd st) (fs st) cmds)"
    and "\<And>st. fs (snd (m st)) = snd (run_cmds w (cwd st) (fs st) cmds)"
    and "\<And>st. cwd (snd (m st)) = cwd st"
    and "\<And>st. fst (m st) = Inr ()
               \<longleftrightarrow> list_all (\<lambda>cr. snd cr = Returned 0) (fst (run_cmds w (cwd st) (fs st) cmds))"
    and "\<And>st e. fst (m st) = Inl e \<Longrightarrow> \<exists>t. e = Fail t"
  shows "steps w m cmds"
  using assms unfolding steps_def by blast

lemma stepsD:
  assumes "steps w m cmds"
  shows "trace (snd (m st)) = trace st @ fst (run_cmds w (cwd st) (fs st) cmds)"
    and "fs (snd (m st)) = snd (run_cmds w (cwd st) (fs st) cmds)"
    and "cwd (snd (m st)) = cwd st"
    and "fst (m st) = Inr ()
           \<longleftrightarrow> list_all (\<lambda>cr. snd cr = Returned 0) (fst (run_cmds w (cwd st) (fs st) cmds))"
    and "fst (m st) = Inl e \<Longrightarrow> \<exists>t. e = Fail t"
  using assms unfolding steps_def by blast+

lemma steps_quiet:
  assumes "quiet m"
  shows "steps w m []"
proof (rule stepsI)
  fix st
  from quietD [OF assms, of st] obtain s where
    s: "m st = (Inr (), s)" "fs s = fs st" "cwd s = cwd st" "trace s = trace st"
    by blast
  then show "trace (snd (m st)) = trace st @ fst (run_cmds w (cwd st) (fs st) [])"
    "fs (snd (m st)) = snd (run_cmds w (cwd st) (fs st) [])"
    "cwd (snd (m st)) = cwd st"
    "fst (m st) = Inr ()
       \<longleftrightarrow> list_all (\<lambda>cr. snd cr = Returned 0) (fst (run_cmds w (cwd st) (fs st) []))"
    by simp_all
  fix e
  assume "fst (m st) = Inl e"
  with s show "\<exists>t. e = Fail t" by simp
qed

lemma steps_execute: "steps w (execute w cmd) [cmd]"
proof (rule stepsI)
  fix st :: state
  let ?r = "proc w cmd ((environ w)(''VERBOSE'' \<mapsto> ''1'')) (cwd st) (fs st)"
  show "trace (snd (execute w cmd st)) = trace st @ fst (run_cmds w (cwd st) (fs st) [cmd])"
    by (cases "fst ?r") (simp_all add: execute_def Let_def log_info_def)
  show "fs (snd (execute w cmd st)) = snd (run_cmds w (cwd st) (fs st) [cmd])"
    by (cases "fst ?r") (simp_all add: execute_def Let_def log_info_def)
  show "cwd (snd (execute w cmd st)) = cwd st"
    by (cases "fst ?r") (simp_all add: execute_def Let_def log_info_def)
  show "fst (execute w cmd st) = Inr ()
          \<longleftrightarrow> list_all (\<lambda>cr. snd cr = Returned 0) (fst (run_cmds w (cwd st) (fs st) [cmd]))"
    by (cases "fst ?r") (auto simp: execute_def Let_def log_info_def)
  fix e
  assume "fst (execute w cmd st) = Inl e"
  then show "\<exists>t. e = Fail t"
    by (cases "fst ?r") (auto simp: execute_def Let_def log_info_def split: if_splits)
qed

lemma steps_seq_Nil: "steps w (seq []) []"
  by (rule stepsI) simp_all

lemma steps_seq_Cons:
  assumes "steps w m a" and "steps w (seq ms) b"
  shows "steps w (seq (m # ms)) (a @ b)"
proof -
  have main: "trace (snd (seq (m # ms) st)) = trace st @ fst (run_cmds w (cwd st) (fs st) (a @ b))
      \<and> fs (snd (seq (m # ms) st)) = snd (run_cmds w (cwd st) (fs st) (a @ b))
      \<and> cwd (snd (seq (m # ms) st)) = cwd st
      \<and> (fst (seq (m # ms) st) = Inr ()
           \<longleftrightarrow> list_all (\<lambda>cr. snd cr = Returned 0) (fst (run_cmds w (cwd st) (fs st) (a @ b))))
      \<and> (\<forall>e. fst (seq (m # ms) st) = Inl e \<longrightarrow> (\<exists>t. e = Fail t))" for st
  proof -
    obtain r s1 where ms1: "m st = (r, s1)" by (cases "m st")
    note d1 = stepsD [OF assms(1), of st, unfolded ms1, simplified]
    show ?thesis
    proof (cases r)
      case (Inl e)
      with ms1 have s: "seq (m # ms) st = (Inl e, s1)" by (simp add: seq_Cons)
      from d1(4) Inl
      have n: "\<not> list_all (\<lambda>cr. snd cr = Returned 0) (fst (run_cmds w (cwd st) (fs st) a))"
        by simp
      from d1(5) [of e] Inl obtain t where "e = Fail t" by auto
      with s n d1(1-3) show ?thesis by (simp add: run_cmds_append)
    next
      case (Inr u)
      with ms1 have s: "seq (m # ms) st = seq ms s1" by (simp add: seq_Cons)
      from d1(4) Inr
      have y: "list_all (\<lambda>cr. snd cr = Returned 0) (fst (run_cmds w (cwd st) (fs st) a))"
        by simp
      note d2 = stepsD [OF assms(2), of s1]
      from d2(5) have f: "\<forall>e. fst (seq ms s1) = Inl e \<longrightarrow> (\<exists>t. e = Fail t)" by blast
      from s y d1(1-3) d2(1-4) f show ?thesis by (simp add: run_cmds_append)
    qed
  qed
  show ?thesis
    by (rule stepsI) (use main in blast)+
qed

lemma steps_banner_then:
  assumes "steps w m a"
  shows "steps w (seq [banner msg args, m]) a"
proof -
  from steps_seq_Cons [OF assms steps_seq_Nil] have "steps w (seq [m]) a" by simp
  from steps_seq_Cons [OF steps_quiet [OF quiet_banner] this] show ?thesis by simp
qed

lemma steps_py_when:
  assumes "steps w m a"
  shows "steps w (py_when c m) (if c then a else [])"
  using assms steps_quiet [OF quiet_done_unit, of w] by (simp add: py_when_def)

subsection \<open>From the builder to the steps\<close>

lemma fs_mkdir_isdir:
  assumes "valid_name c" and "fs_mkdir t (ps @ [c]) = Inr t'"
  shows "fs_stat t' (ps @ [c]) = Inr Directory"
proof -
  from assms(2) obtain f canon where
    w: "walk max_links t [] ps = Inr (f, canon)"
    and d: "fs_kind t canon = Some Directory"
    and a: "fs_kind t (canon @ [c]) = None"
    and t': "t' = fs_insert t (canon @ [c]) (Dir [])"
    by (auto simp: fs_mkdir_def fs_entry_def split: sum.splits option.splits kind.splits)
  note k = fs_kind_insert [OF d a]
  from walk_extends [OF w fs_kind_insert_keeps [OF d a]]
  have w': "walk max_links t' [] ps = Inr (f, canon)" by (simp add: t')
  from assms(1) have c: "c \<noteq> []" "c \<noteq> ''.''" "c \<noteq> ''..''" by (simp_all add: valid_name_def)
  from d a have d': "fs_kind t' canon = Some Directory" by (auto simp: t' k)
  have e: "fs_kind t' (canon @ [c]) = Some Directory" by (simp add: t' k)
  from walk_name [OF d' c e, of f "[]"] have "walk f t' canon [c] = Inr (f, canon @ [c])"
    by simp
  with w' have "walk max_links t' [] (ps @ [c]) = Inr (f, canon @ [c])"
    by (simp add: walk_append)
  with e show ?thesis by (simp add: fs_stat_def)
qed

lemma fs_makedirs_isdir:
  assumes "list_all valid_name p" and "fs_makedirs t (rev p) = (None, t')"
  shows "fs_stat t' p = Inr Directory"
proof (cases p rule: rev_cases)
  case Nil
  with assms(2) show ?thesis by (simp add: mkdir_step_def fs_mkdir_def)
next
  case (snoc ps c)
  with assms(1) have c: "valid_name c" by simp
  from assms(2) snoc obtain t1 where "mkdir_step t1 (ps @ [c]) = (None, t')"
    by (auto split: sum.splits prod.splits option.splits if_splits)
  then have "fs_mkdir t1 (ps @ [c]) = Inr t'"
    by (auto simp: mkdir_step_def split: sum.splits)
  from fs_mkdir_isdir [OF c this] snoc show ?thesis by simp
qed

lemma check_dir_keeps:
  "trace (snd (check_dir w d create False st)) = trace st"
  "cwd (snd (check_dir w d create False st)) = cwd st"
  by (simp_all add: check_dir_def Let_def andthen_def makedirs_def
        split: prod.splits option.splits sum.splits)

lemma isdir_absolute:
  "isabs p \<Longrightarrow> fs s = fs s' \<Longrightarrow> isdir s p = isdir s' p"
  by (simp add: isdir_def resolve_def)

lemma isabs_abspath: "isabs (abspath st d)"
proof -
  from abspath_shape [of st d] obtain k cs where
    "k = 1 \<or> k = 2" "abspath st d = replicate k CHR ''/'' @ sep_join cs"
    by blast
  then show ?thesis by (auto simp: isabs_def startswith_def numeral_2_eq_2)
qed

lemma check_dir_returns:
  assumes "check_dir w d create False st = (Inr p, s)"
  shows "p = abspath st d" and "create \<Longrightarrow> isdir s p" and "\<not> create \<Longrightarrow> fs s = fs st"
proof -
  let ?st = "log_info ''Check dir %s (create: %s, clean: %s)''
                [PStr (abspath st d), PBool create, PBool False] st"
  show p: "p = abspath st d"
    using assms
    by (auto simp: check_dir_def Let_def andthen_def makedirs_def
          split: if_splits sum.splits prod.splits option.splits)
  show "fs s = fs st" if "\<not> create"
    using assms that by (auto simp: check_dir_def Let_def split: if_splits)
  show "isdir s p" if create
  proof (cases "path_exists st (abspath st d)")
    case True
    with assms have "isdir st (abspath st d)" "s = ?st"
      by (auto simp: check_dir_def Let_def split: if_splits)
    with p show ?thesis by simp
  next
    case False
    with assms that obtain t where
      t: "fs_makedirs (fs st) (rev (resolve st (abspath st d))) = (None, t)"
      and s: "s = ?st\<lparr>fs := t\<rparr>"
      by (auto simp: check_dir_absent_create split: prod.splits option.splits)
    from abspath_shape [of st d] have "list_all valid_name (resolve st (abspath st d))" by auto
    from fs_makedirs_isdir [OF this t] s p show ?thesis by (simp add: isdir_def)
  qed
qed

lemma Builder_init_keeps:
  "trace (snd (Builder_init w opts st)) = trace st"
  "cwd (snd (Builder_init w opts st)) = cwd st"
proof -
  have "trace (snd (Builder_init w opts st)) = trace st \<and> cwd (snd (Builder_init w opts st)) = cwd st"
  proof -
    obtain r1 s1 where 1: "check_dir w (build_dir opts) True False st = (r1, s1)"
      by (cases "check_dir w (build_dir opts) True False st")
    obtain r2 s2 where 2: "check_dir w (opencv_dir opts) False False s1 = (r2, s2)"
      by (cases "check_dir w (opencv_dir opts) False False s1")
    from check_dir_keeps [of w "build_dir opts" True st] 1
    have k1: "trace s1 = trace st" "cwd s1 = cwd st" by simp_all
    from check_dir_keeps [of w "opencv_dir opts" False s1] 2 k1
    have k2: "trace s2 = trace st" "cwd s2 = cwd st" by simp_all
    show ?thesis
    proof (cases "emscripten_dir opts")
      case None
      with 1 2 k1 k2 show ?thesis
        by (cases r1; cases r2) (simp_all add: Builder_init_def andthen_def)
    next
      case (Some e)
      obtain r3 s3 where 3: "check_dir w e False False s2 = (r3, s3)"
        by (cases "check_dir w e False False s2")
      from check_dir_keeps [of w e False s2] 3 k2
      have k3: "trace s3 = trace st" "cwd s3 = cwd st" by simp_all
      from Some 1 2 3 k1 k2 k3 show ?thesis
        by (cases r1; cases r2; cases r3) (simp_all add: Builder_init_def andthen_def)
    qed
  qed
  then show "trace (snd (Builder_init w opts st)) = trace st"
    "cwd (snd (Builder_init w opts st)) = cwd st"
    by simp_all
qed

lemma Builder_init_returns:
  assumes "Builder_init w opts st = (Inr b, s)"
  shows "self_options b = opts" and "isdir s (self_build_dir b)" and "emscripten_dir opts \<noteq> None"
proof -
  from assms obtain bd s1 od s2 e ed where
    1: "check_dir w (build_dir opts) True False st = (Inr bd, s1)"
    and 2: "check_dir w (opencv_dir opts) False False s1 = (Inr od, s2)"
    and e: "emscripten_dir opts = Some e"
    and 3: "check_dir w e False False s2 = (Inr ed, s)"
    and b: "b = \<lparr>self_options = opts, self_build_dir = bd, self_opencv_dir = od,
                 self_emscripten_dir = ed\<rparr>"
    by (auto simp: Builder_init_def andthen_def split: prod.splits sum.splits option.splits)
  from b show "self_options b = opts" by simp
  from e show "emscripten_dir opts \<noteq> None" by simp
  from check_dir_returns(1,2) [OF 1] have "isabs bd" "isdir s1 bd"
    by (simp_all add: isabs_abspath)
  moreover from check_dir_returns(3) [OF 2] check_dir_returns(3) [OF 3] have "fs s = fs s1"
    by simp
  ultimately have "isdir s bd" using isdir_absolute [of bd s s1] by simp
  with b show "isdir s (self_build_dir b)" by simp
qed

lemma chdir_isdir:
  assumes "isdir s p"
  shows "\<exists>wd. chdir p s = (Inr (), s\<lparr>cwd := wd\<rparr>)"
  using assms
  by (auto simp: isdir_def chdir_def fs_stat_def split: sum.splits option.splits kind.splits)

lemma wasm_flag_in_cmake_cmd:
  assumes "build_wasm (self_options b)" "\<not> enable_exception (self_options b)"
  shows "''-DCMAKE_C_FLAGS='' @ quoted ''-s USE_PTHREADS=0 -s WASM=1 ''
           \<in> set (Builder_get_cmake_cmd b)"
proof -
  from assms have "Builder_get_build_flags b = ''-s USE_PTHREADS=0 -s WASM=1 ''"
    by (simp add: Builder_get_build_flags_def Let_def)
  then show ?thesis by (simp add: get_cmake_cmd_eq)
qed

lemma main_resolved:
  assumes "Builder_init w (parse_args w st c)
             (log_debug ''Args: %s'' [PArgs (parse_args w st c)] st) = (Inr b, s1)"
  shows "main w c st = main_steps w (parse_args w st c) b s1"
  using assms Builder_init_returns(3) [OF assms] by (auto simp add: main_def Let_def andthen_def)

lemma main_invalid:
  assumes "Builder_init w (parse_args w st c)
             (log_debug ''Args: %s'' [PArgs (parse_args w st c)] st) = (Inl e, s1)"
    and "emscripten_dir (parse_args w st c) \<noteq> None"
  shows "main w c st = (Inl e, s1)"
  using assms by (auto simp add: main_def Let_def andthen_def)

lemma seq_Cons_Inr: "m st = (Inr (), s) \<Longrightarrow> seq (m # ms) st = seq ms s"
  by (simp add: seq_Cons)

lemma seq_Cons_Inl: "m st = (Inl e, s) \<Longrightarrow> seq (m # ms) st = (Inl e, s)"
  by (simp add: seq_Cons)

end
